theory Spec2Isabelle
  imports Complex_Main "HOL-Library.Word" "HOL-Library.Sublist"
begin

unbundle bit_operations_syntax

text \<open>
  The inference pipeline of CHRONO-HEALTH: the edge function \<^verbatim>\<open>process_message\<close> turns a
  symptom text into a vector of 46 features, and the edge function
  \<^verbatim>\<open>predict_disease\<close> scales such a vector, scores it with the placeholder scorer
  \<^verbatim>\<open>booster_min.js\<close>, normalises the scores with softmax and selects a label. Each
  function of the source is a function here, under its own name; a loop is a
  recursive function, an exception is the left summand of a sum type, and what the
  functions read from files is a parameter.
\<close>

section \<open>Strings of the runtime\<close>

text \<open>
  A JavaScript string is a sequence of code units. The model reads a \<^typ>\<open>char\<close> as a
  code unit in the range 0..255 (Basic Latin and Latin-1 Supplement), where
  \<^verbatim>\<open>toLowerCase\<close> maps \<^verbatim>\<open>A-Z\<close> and the upper-case letters U+00C0..U+00DE (without the
  multiplication sign U+00D7) to the code unit 32 places later and leaves every other
  code unit alone. Texts with code units beyond 255 are outside the model.
\<close>

definition lowerChar :: "char \<Rightarrow> char" where
  "lowerChar c =
     (let n = (of_char c :: nat)
      in if (65 \<le> n \<and> n \<le> 90) \<or> (192 \<le> n \<and> n \<le> 222 \<and> n \<noteq> 215)
         then char_of (n + 32) else c)"

definition toLowerCase :: "string \<Rightarrow> string" where
  "toLowerCase s = map lowerChar s"

text \<open>\<^verbatim>\<open>name.replace(/_/g, " ")\<close>: every underscore becomes a space.\<close>

definition replaceUnderscores :: "string \<Rightarrow> string" where
  "replaceUnderscores s = map (\<lambda>c. if c = CHR ''_'' then CHR '' '' else c) s"

text \<open>
  \<^verbatim>\<open>s.includes(t)\<close>: \<open>t\<close> occurs in \<open>s\<close> at some position; the empty string occurs
  everywhere.
\<close>

fun startsWith :: "string \<Rightarrow> string \<Rightarrow> bool" where
  "startsWith s [] = True"
| "startsWith [] (c # t) = False"
| "startsWith (a # s) (c # t) = (a = c \<and> startsWith s t)"

fun includesJS :: "string \<Rightarrow> string \<Rightarrow> bool" where
  "includesJS [] t = (t = [])"
| "includesJS (a # s) t = (startsWith (a # s) t \<or> includesJS s t)"

section \<open>process\_message: text to feature vector\<close>

definition FEATURE_NAMES :: "string list" where
  "FEATURE_NAMES =
    [''age'', ''gender'', ''smoker'', ''heart_rate'', ''blood_pressure'',
     ''cholesterol_level'', ''fever'', ''cough'', ''fatigue'', ''shortness_of_breath'',
     ''headache'', ''runny_nose'', ''sore_throat'', ''chest_pain'', ''body_ache'',
     ''nausea'', ''vomiting'', ''diarrhea'', ''dizziness'', ''chills'',
     ''loss_of_smell'', ''loss_of_taste'', ''wheezing'', ''rash'', ''eye_irritation'',
     ''ear_pain'', ''sweating'', ''joint_pain'', ''abdominal_pain'', ''back_pain'',
     ''blurred_vision'', ''dry_cough'', ''wet_cough'', ''sinus_pressure'', ''sneezing'',
     ''rapid_heartbeat'', ''slow_heartbeat'', ''dehydration'', ''loss_of_appetite'',
     ''sleep_disturbance'', ''anxiety'', ''irritability'', ''muscle_spasm'',
     ''skin_redness'', ''itchiness'', ''breathing_difficulty'']"

text \<open>
  \<^verbatim>\<open>severityMap\<close> is an object literal whose keys are no array indices, so
  \<^verbatim>\<open>Object.entries\<close> lists it in the order the keys are written.
\<close>

definition severityMap :: "(string \<times> int) list" where
  "severityMap =
    [(''severe'', 3), (''high'', 3), (''bad'', 3), (''moderate'', 2), (''medium'', 2),
     (''mild'', 1), (''slight'', 1)]"

text \<open>The \<^verbatim>\<open>for ... of\<close> loop of \<^verbatim>\<open>extractSeverity\<close> with the default after it.\<close>

fun scanEntries :: "(string \<times> int) list \<Rightarrow> string \<Rightarrow> int" where
  "scanEntries [] msg = 1"
| "scanEntries ((key, val) # rest) msg =
     (if includesJS msg key then val else scanEntries rest msg)"

definition extractSeverity :: "string \<Rightarrow> int" where
  "extractSeverity msg = scanEntries severityMap (toLowerCase msg)"

text \<open>
  The \<^verbatim>\<open>forEach\<close> callback of \<^verbatim>\<open>buildFeatureVector\<close>, run over the names from
  index \<open>i\<close> on; the vector is passed along and returned updated.
\<close>

fun forEachName :: "string list \<Rightarrow> nat \<Rightarrow> string \<Rightarrow> int \<Rightarrow> int list \<Rightarrow> int list" where
  "forEachName [] i msg severity vec = vec"
| "forEachName (name # names) i msg severity vec =
     forEachName names (i + 1) msg severity
       (if i < 6 then vec
        else if includesJS msg (replaceUnderscores name) then vec[i := severity]
        else vec)"

definition buildFeatureVector :: "string \<Rightarrow> int list" where
  "buildFeatureVector message =
     (let vec0 = replicate (length FEATURE_NAMES) 0;
          msg = toLowerCase message;
          vec1 = vec0[0 := 25];
          vec2 = vec1[1 := 1];
          vec3 = vec2[2 := 0];
          vec4 = vec3[3 := 80];
          vec5 = vec4[4 := 120];
          vec6 = vec5[5 := 180];
          severity = extractSeverity msg
      in forEachName FEATURE_NAMES 0 msg severity vec6)"

section \<open>Numbers of the runtime\<close>

text \<open>
  A JavaScript number is an IEEE double: a finite value, one of the two infinities, or
  NaN. A finite value is carried as the real number it stands for. Every operation on
  finite values computes the exact real result and rounds it to the nearest double
  (\<open>rd\<close>): to the nearest multiple of the unit in the last place, ties to the even
  multiple, with 53 significant bits, gradual underflow below \<open>2 ^ -1022\<close> and overflow
  to an infinity from \<open>2 ^ 1024\<close> on. The infinities and NaN follow IEEE 754. The sign
  of zero is not modelled, and \<^verbatim>\<open>Math.exp\<close>, which the language leaves to the
  implementation, is taken as correctly rounded.
\<close>

datatype jsnum = Fin real | PInf | NInf | NaN

text \<open>\<open>2 ^ e\<close> for an integer \<open>e\<close> of either sign.\<close>

definition pow2 :: "int \<Rightarrow> real" where
  "pow2 e = (if 0 \<le> e then 2 ^ nat e else 1 / 2 ^ nat (- e))"

text \<open>
  The exponent of the unit in the last place of the double nearest to \<open>x\<close>: 52 below
  the binary exponent of \<open>x\<close>, and never below -1074.
\<close>

definition ulpExp :: "real \<Rightarrow> int" where
  "ulpExp x = max \<lfloor>log 2 \<bar>x\<bar>\<rfloor> (- 1022) - 52"

text \<open>The nearest integer, a tie going to the even one.\<close>

definition roundEven :: "real \<Rightarrow> int" where
  "roundEven q =
     (let f = \<lfloor>q\<rfloor>; d = q - of_int f
      in if d < 1 / 2 then f else if 1 / 2 < d then f + 1 else if even f then f else f + 1)"

definition rd :: "real \<Rightarrow> jsnum" where
  "rd x =
     (if x = 0 then Fin 0
      else let e = ulpExp x;
               r = of_int (roundEven (x / pow2 e)) * pow2 e
           in if 2 ^ 1024 \<le> r then PInf
              else if r \<le> - (2 ^ 1024) then NInf
              else Fin r)"

text \<open>The real number a finite value stands for (0 for the other values).\<close>

fun finval :: "jsnum \<Rightarrow> real" where
  "finval (Fin r) = r"
| "finval other = 0"

fun js_neg :: "jsnum \<Rightarrow> jsnum" where
  "js_neg (Fin a) = Fin (- a)"
| "js_neg PInf = NInf"
| "js_neg NInf = PInf"
| "js_neg NaN = NaN"

fun js_add :: "jsnum \<Rightarrow> jsnum \<Rightarrow> jsnum" where
  "js_add NaN y = NaN"
| "js_add x NaN = NaN"
| "js_add (Fin a) (Fin b) = rd (a + b)"
| "js_add PInf NInf = NaN"
| "js_add NInf PInf = NaN"
| "js_add PInf y = PInf"
| "js_add NInf y = NInf"
| "js_add (Fin a) y = y"

definition js_sub :: "jsnum \<Rightarrow> jsnum \<Rightarrow> jsnum" where
  "js_sub x y = js_add x (js_neg y)"

fun js_mul :: "jsnum \<Rightarrow> jsnum \<Rightarrow> jsnum" where
  "js_mul NaN y = NaN"
| "js_mul x NaN = NaN"
| "js_mul (Fin a) (Fin b) = rd (a * b)"
| "js_mul (Fin a) PInf = (if a = 0 then NaN else if 0 < a then PInf else NInf)"
| "js_mul (Fin a) NInf = (if a = 0 then NaN else if 0 < a then NInf else PInf)"
| "js_mul PInf (Fin b) = (if b = 0 then NaN else if 0 < b then PInf else NInf)"
| "js_mul NInf (Fin b) = (if b = 0 then NaN else if 0 < b then NInf else PInf)"
| "js_mul PInf PInf = PInf"
| "js_mul PInf NInf = NInf"
| "js_mul NInf PInf = NInf"
| "js_mul NInf NInf = PInf"

fun js_div :: "jsnum \<Rightarrow> jsnum \<Rightarrow> jsnum" where
  "js_div NaN y = NaN"
| "js_div x NaN = NaN"
| "js_div (Fin a) (Fin b) =
     (if b = 0 then (if a = 0 then NaN else if 0 < a then PInf else NInf)
      else rd (a / b))"
| "js_div (Fin a) y = Fin 0"
| "js_div PInf (Fin b) = (if 0 \<le> b then PInf else NInf)"
| "js_div NInf (Fin b) = (if 0 \<le> b then NInf else PInf)"
| "js_div x y = NaN"

fun js_exp :: "jsnum \<Rightarrow> jsnum" where
  "js_exp (Fin a) = rd (exp a)"
| "js_exp PInf = PInf"
| "js_exp NInf = Fin 0"
| "js_exp NaN = NaN"

text \<open>The comparison \<^verbatim>\<open><=\<close> of numbers: false as soon as one side is NaN.\<close>

fun js_le :: "jsnum \<Rightarrow> jsnum \<Rightarrow> bool" where
  "js_le NaN y = False"
| "js_le x NaN = False"
| "js_le NInf y = True"
| "js_le x PInf = True"
| "js_le (Fin a) (Fin b) = (a \<le> b)"
| "js_le x y = False"

text \<open>Strict equality \<^verbatim>\<open>===\<close> of numbers, which \<^verbatim>\<open>indexOf\<close> uses: NaN equals nothing.\<close>

fun strictEq :: "jsnum \<Rightarrow> jsnum \<Rightarrow> bool" where
  "strictEq NaN y = False"
| "strictEq x NaN = False"
| "strictEq x y = (x = y)"

text \<open>A number is falsy when it is zero or NaN.\<close>

fun truthy :: "jsnum \<Rightarrow> bool" where
  "truthy (Fin a) = (a \<noteq> 0)"
| "truthy NaN = False"
| "truthy x = True"

text \<open>
  \<^verbatim>\<open>Math.max(...arr)\<close>: minus infinity for no argument, NaN as soon as one argument is
  NaN, the largest argument otherwise. (An array too long to be spread into an argument
  list is outside the model.)
\<close>

fun max2 :: "jsnum \<Rightarrow> jsnum \<Rightarrow> jsnum" where
  "max2 NaN y = NaN"
| "max2 x NaN = NaN"
| "max2 x y = (if js_le x y then y else x)"

definition Math_max :: "jsnum list \<Rightarrow> jsnum" where
  "Math_max arr = foldl max2 NInf arr"

text \<open>\<^verbatim>\<open>arr.indexOf(x)\<close>, searching from position \<open>k\<close> on; -1 when nothing is found.\<close>

fun indexOfFrom :: "int \<Rightarrow> jsnum list \<Rightarrow> jsnum \<Rightarrow> int" where
  "indexOfFrom k [] x = - 1"
| "indexOfFrom k (y # ys) x = (if strictEq y x then k else indexOfFrom (k + 1) ys x)"

definition indexOf :: "jsnum list \<Rightarrow> jsnum \<Rightarrow> int" where
  "indexOf arr x = indexOfFrom 0 arr x"

text \<open>
  The values an array handed to the scorer may hold; \<^verbatim>\<open>typeof v === "number"\<close> holds
  for \<open>JNum\<close> alone (NaN and the infinities included).
\<close>

datatype jsval = JNum jsnum | JStr string | JBool bool | JNull | JUndefined
  | JArr "jsval list" | JObj

datatype error = SyntaxError | TypeError | Error string

section \<open>predict\_disease: scaling\<close>

text \<open>
  The scaler artifact is parsed JSON. A field that is missing makes the property read
  \<^verbatim>\<open>scaler.mean[i]\<close> throw a TypeError; a field that is present is an array of numbers.
\<close>

record scaler =
  mean :: "jsnum list option"
  std :: "jsnum list option"

text \<open>
  Reading an array beyond its end gives \<^verbatim>\<open>undefined\<close>: in \<^verbatim>\<open>v - undefined\<close> it
  counts as NaN, and \<^verbatim>\<open>undefined || 1\<close> is 1.
\<close>

definition meanAt :: "jsnum list \<Rightarrow> nat \<Rightarrow> jsnum" where
  "meanAt m i = (if i < length m then m ! i else NaN)"

definition stdOrOne :: "jsnum list \<Rightarrow> nat \<Rightarrow> jsnum" where
  "stdOrOne s i = (if i < length s \<and> truthy (s ! i) then s ! i else Fin 1)"

text \<open>The \<^verbatim>\<open>map\<close> callback of \<^verbatim>\<open>scaleInput\<close>, run over the entries from index \<open>i\<close> on.\<close>

fun scaleFrom :: "nat \<Rightarrow> jsnum list \<Rightarrow> scaler \<Rightarrow> error + jsnum list" where
  "scaleFrom i [] scaler = Inr []"
| "scaleFrom i (v # vs) scaler =
     (case mean scaler of
        None \<Rightarrow> Inl TypeError
      | Some m \<Rightarrow>
         (case std scaler of
            None \<Rightarrow> Inl TypeError
          | Some s \<Rightarrow>
             (case scaleFrom (i + 1) vs scaler of
                Inl e \<Rightarrow> Inl e
              | Inr rest \<Rightarrow> Inr (js_div (js_sub v (meanAt m i)) (stdOrOne s i) # rest))))"

definition scaleInput :: "jsnum list \<Rightarrow> scaler \<Rightarrow> error + jsnum list" where
  "scaleInput arr scaler = scaleFrom 0 arr scaler"

section \<open>The placeholder scorer\<close>

text \<open>
  The integers of \<^verbatim>\<open>weightFor\<close> are doubles too, and its products leave the range in
  which every integer is a double. \<open>roundDouble\<close> is the double nearest to an integer
  (ties to the even significand of 53 bits), so the products and the sum are rounded
  as the runtime rounds them; the integers met here stay far below the overflow bound.
\<close>

fun bitLength :: "nat \<Rightarrow> nat" where
  "bitLength n = (if n = 0 then 0 else 1 + bitLength (n div 2))"

declare bitLength.simps [simp del]

definition roundDouble :: "int \<Rightarrow> int" where
  "roundDouble x =
     (let a = nat \<bar>x\<bar>
      in if a < 2 ^ 53 then x
         else let e = bitLength a - 53;
                  q = a div 2 ^ e;
                  r = a mod 2 ^ e;
                  h = 2 ^ (e - 1);
                  q' = (if h < r \<or> (r = h \<and> odd q) then q + 1 else q)
              in sgn x * int (q' * 2 ^ e))"

text \<open>
  \<^verbatim>\<open>^\<close> turns both operands into 32-bit integers and gives a signed 32-bit result;
  \<^verbatim>\<open>>>> 0\<close> reduces modulo \<open>2 ^ 32\<close>; \<^verbatim>\<open>*\<close> binds tighter than \<^verbatim>\<open>^\<close>. The last
  line divides and subtracts as doubles.
\<close>

definition weightFor :: "nat \<Rightarrow> nat \<Rightarrow> jsnum" where
  "weightFor labelIdx featIdx =
     (let a = 1610612741;
          b = 805306457;
          seed = sint ((word_of_int (roundDouble ((int labelIdx + 1) * 1315423911)) :: 32 word)
                   XOR word_of_int (roundDouble ((int featIdx + 1) * 2654435761)));
          mixed = (roundDouble (roundDouble (seed * a) + b) mod 2 ^ 32) mod 100000
      in js_sub (js_div (Fin (real_of_int mixed)) (Fin 100000)) (Fin (1 / 2)))"

text \<open>
  \<^verbatim>\<open>((i * 37) % 7 - 3) * 0.02\<close>: the literal \<^verbatim>\<open>0.02\<close> is the double nearest to 2/100.
\<close>

definition bias :: "nat \<Rightarrow> jsnum" where
  "bias i = js_mul (Fin (real_of_int (int ((i * 37) mod 7) - 3))) (rd (2 / 100))"

text \<open>\<^verbatim>\<open>typeof features[j] === "number" ? features[j] : 0\<close>\<close>

fun numberOrZero :: "jsval \<Rightarrow> jsnum" where
  "numberOrZero (JNum v) = v"
| "numberOrZero other = Fin 0"

text \<open>The inner loop over \<open>j\<close>, from index \<open>j\<close> on, with the running sum \<open>s\<close>.\<close>

fun accumulate :: "nat \<Rightarrow> nat \<Rightarrow> jsval list \<Rightarrow> jsnum \<Rightarrow> jsnum" where
  "accumulate i j [] s = s"
| "accumulate i j (f # fs) s =
     accumulate i (j + 1) fs (js_add s (js_mul (weightFor i j) (numberOrZero f)))"

definition logit :: "nat \<Rightarrow> jsval list \<Rightarrow> jsnum" where
  "logit i features = js_add (accumulate i 0 features (Fin 0)) (bias i)"

text \<open>
  \<open>labels\<close> is what the module imports from the labels file; the number of labels is
  its length when it is an array and 3 otherwise.
\<close>

fun nLabels :: "jsval \<Rightarrow> nat" where
  "nLabels (JArr ls) = length ls"
| "nLabels other = 3"

fun predictXGB :: "jsval \<Rightarrow> jsval \<Rightarrow> error + jsnum list" where
  "predictXGB labels (JArr features) =
     Inr (map (\<lambda>i. logit i features) [0..<nLabels labels])"
| "predictXGB labels other = Inl (Error ''predictXGB expects an array of numbers'')"

section \<open>predict\_disease: normalising, selecting, answering\<close>

definition softmax :: "jsnum list \<Rightarrow> jsnum list" where
  "softmax arr =
     (let mx = Math_max arr;
          exps = map (\<lambda>x. js_exp (js_sub x mx)) arr;
          sum = foldl js_add (Fin 0) exps
      in map (\<lambda>v. js_div v sum) exps)"

text \<open>
  The prediction is a label or, where \<^verbatim>\<open>labels[bestIndex]\<close> is \<^verbatim>\<open>undefined\<close>, the index
  itself. The label file is an array of strings.
\<close>

datatype prediction = Label string | Index int

definition labelAt :: "string list \<Rightarrow> int \<Rightarrow> string option" where
  "labelAt labels k = (if 0 \<le> k \<and> nat k < length labels then Some (labels ! nat k) else None)"

definition select :: "string list \<Rightarrow> jsnum list \<Rightarrow> prediction" where
  "select labels probs =
     (let bestIndex = indexOf probs (Math_max probs)
      in case labelAt labels bestIndex of Some l \<Rightarrow> Label l | None \<Rightarrow> Index bestIndex)"

text \<open>
  A request is its HTTP method (\<^verbatim>\<open>req.method\<close>) and what \<^verbatim>\<open>req.json()\<close> makes of
  the body: the call rejects when the body is no JSON, reading \<^verbatim>\<open>body.symptoms\<close>
  throws when the body is \<^verbatim>\<open>null\<close>, and otherwise \<^verbatim>\<open>symptoms\<close> is an array or no
  array at all. The entries of an array are numbers, as the feature extractor produces
  them; an array with other entries is outside the model.
\<close>

datatype symptoms = NotArray | NumArray "jsnum list"

datatype body = InvalidJson | NullBody | Body symptoms

record request =
  httpMethod :: string
  payload :: body

text \<open>
  What \<^verbatim>\<open>loadModelFiles\<close> returns: the scaler, the labels and the scorer found beside the
  function. Reading and evaluating the files is input to the model.
\<close>

record artifacts =
  scaler :: scaler
  labels :: "string list"
  scorer :: "jsval \<Rightarrow> error + jsnum list"

datatype content =
    Text string
  | ErrorMessage string
  | Thrown error
  | Result prediction "jsnum list"

text \<open>
  A response is its status and its body. The body is kept as the value that
  \<^verbatim>\<open>JSON.stringify\<close> is given (which prints a NaN or an infinity as \<^verbatim>\<open>null\<close>);
  \<open>Thrown e\<close> is the body \<^verbatim>\<open>{ error: String(err) }\<close> of the \<^verbatim>\<open>catch\<close> block, and a
  response built without a status has status 200.
\<close>

datatype response = Response (status: nat) (content: content)

definition handler :: "request \<Rightarrow> error + artifacts \<Rightarrow> response" where
  "handler req loaded =
     (if httpMethod req \<noteq> ''POST'' then Response 405 (Text ''Method Not Allowed'')
      else case payload req of
        InvalidJson \<Rightarrow> Response 500 (Thrown SyntaxError)
      | NullBody \<Rightarrow> Response 500 (Thrown TypeError)
      | Body NotArray \<Rightarrow> Response 400 (ErrorMessage ''symptoms must be array'')
      | Body (NumArray symptoms) \<Rightarrow>
         (case loaded of
            Inl e \<Rightarrow> Response 500 (Thrown e)
          | Inr files \<Rightarrow>
             (case scaleInput symptoms (scaler files) of
                Inl e \<Rightarrow> Response 500 (Thrown e)
              | Inr scaled \<Rightarrow>
                 (case scorer files (JArr (map JNum scaled)) of
                    Inl e \<Rightarrow> Response 500 (Thrown e)
                  | Inr logits \<Rightarrow>
                     (let probs = softmax logits
                      in Response 200 (Result (select (labels files) probs) probs))))))"

section \<open>Facts about the string operations\<close>

lemma startsWith_iff_prefix: "startsWith s t \<longleftrightarrow> prefix t s"
  by (induction s t rule: startsWith.induct) auto

lemma includes_iff_sublist: "includesJS s t \<longleftrightarrow> sublist t s"
  by (induction s) (auto simp: startsWith_iff_prefix sublist_Cons_right)

lemma includes_iff_append: "includesJS s t \<longleftrightarrow> (\<exists>p q. s = p @ t @ q)"
  by (simp add: includes_iff_sublist sublist_def)

lemma includes_append_left: "includesJS s t \<Longrightarrow> includesJS (p @ s) t"
  by (induction p) auto

lemma includes_nested: "includesJS s t \<Longrightarrow> includesJS t u \<Longrightarrow> includesJS s u"
  unfolding includes_iff_sublist by (rule sublist_order.order_trans)

lemma lowerChar_idem: "lowerChar (lowerChar c) = lowerChar c"
proof -
  define n where "n = (of_char c :: nat)"
  have n: "n < 256" unfolding n_def by (cases c) simp
  have c: "c = char_of n" unfolding n_def by simp
  show ?thesis
    unfolding lowerChar_def Let_def c of_char_of using n
    by (simp add: mod_if)
qed

lemma toLowerCase_idem: "toLowerCase (toLowerCase s) = toLowerCase s"
  by (simp add: toLowerCase_def lowerChar_idem)

section \<open>Facts about the feature extractor\<close>

lemma forEachName_length: "length (forEachName names i msg sev vec) = length vec"
  by (induction names arbitrary: i vec) auto

lemma forEachName_nth:
  "k < length vec \<Longrightarrow>
   forEachName names i msg sev vec ! k =
     (if i \<le> k \<and> k < i + length names \<and> 6 \<le> k \<and>
         includesJS msg (replaceUnderscores (names ! (k - i)))
      then sev else vec ! k)"
proof (induction names arbitrary: i vec)
  case Nil
  then show ?case by simp
next
  case (Cons name names)
  have step: "forEachName names (Suc i) msg sev v ! k =
     (if Suc i \<le> k \<and> k < Suc i + length names \<and> 6 \<le> k \<and>
         includesJS msg (replaceUnderscores (names ! (k - Suc i)))
      then sev else v ! k)" if "length v = length vec" for v
    using Cons.IH [of v "Suc i"] Cons.prems that by simp
  show ?case
    using Cons.prems by (auto simp: step nth_Cons' nth_list_update)
qed

lemma length_FEATURE_NAMES: "length FEATURE_NAMES = 46"
  by (simp add: FEATURE_NAMES_def)

lemma extractSeverity_lower: "extractSeverity (toLowerCase t) = extractSeverity t"
  by (simp add: extractSeverity_def toLowerCase_idem)

lemma scanEntries_none:
  "\<forall>i<length es. \<not> includesJS m (fst (es ! i)) \<Longrightarrow> scanEntries es m = 1"
proof (induction es)
  case Nil
  then show ?case by simp
next
  case (Cons e es)
  obtain key val where e: "e = (key, val)" by (cases e)
  from Cons.prems have "\<not> includesJS m (fst ((e # es) ! 0))" by blast
  then have no: "\<not> includesJS m key" by (simp add: e)
  from Cons.prems have "\<forall>i<length es. \<not> includesJS m (fst (es ! i))" by fastforce
  then show ?case using no by (simp add: e Cons.IH)
qed

lemma scanEntries_first:
  "i < length es \<Longrightarrow> includesJS m (fst (es ! i)) \<Longrightarrow>
   \<forall>j<i. \<not> includesJS m (fst (es ! j)) \<Longrightarrow> scanEntries es m = snd (es ! i)"
proof (induction es arbitrary: i)
  case Nil
  then show ?case by simp
next
  case (Cons e es)
  obtain key val where e: "e = (key, val)" by (cases e)
  show ?case
  proof (cases i)
    case 0
    then show ?thesis using Cons.prems by (simp add: e)
  next
    case (Suc k)
    from Cons.prems Suc have "\<not> includesJS m (fst ((e # es) ! 0))" by blast
    then have no: "\<not> includesJS m key" by (simp add: e)
    have "\<forall>j<k. \<not> includesJS m (fst (es ! j))"
    proof (intro allI impI)
      fix j assume "j < k"
      then have "Suc j < i" using Suc by simp
      with Cons.prems have "\<not> includesJS m (fst ((e # es) ! Suc j))" by blast
      then show "\<not> includesJS m (fst (es ! j))" by simp
    qed
    then have "scanEntries es m = snd (es ! k)"
      using Cons.IH [of k] Cons.prems Suc by simp
    then show ?thesis using no Suc by (simp add: e)
  qed
qed

lemma cough_in_dry_cough: "includesJS ''dry cough'' ''cough''"
  by code_simp

lemma symptom_cough: "replaceUnderscores (FEATURE_NAMES ! 7) = ''cough''"
  by (simp add: FEATURE_NAMES_def replaceUnderscores_def)

lemma symptom_dry_cough: "replaceUnderscores (FEATURE_NAMES ! 31) = ''dry cough''"
  by (simp add: FEATURE_NAMES_def replaceUnderscores_def)

text \<open>
  C1. For every text the feature vector has exactly 46 entries, and the entries 0 to 5
  are the vital defaults 25, 1, 0, 80, 120 and 180, whatever the text says.
\<close>

theorem buildFeatureVector_shape:
  "length (buildFeatureVector text) = 46 \<and>
   buildFeatureVector text ! 0 = 25 \<and>
   buildFeatureVector text ! 1 = 1 \<and>
   buildFeatureVector text ! 2 = 0 \<and>
   buildFeatureVector text ! 3 = 80 \<and>
   buildFeatureVector text ! 4 = 120 \<and>
   buildFeatureVector text ! 5 = 180"
  by (simp add: buildFeatureVector_def Let_def forEachName_length forEachName_nth
      length_FEATURE_NAMES)

text \<open>
  C2. The severity of a message is the level of the first keyword, in the order the
  lexicon declares, that occurs in the lower-cased message; it is 1 when no keyword
  occurs. A message with both "mild" and "severe" has severity 3, wherever the two
  words stand in the text.
\<close>

theorem extractSeverity_priority:
  "((\<forall>i<length severityMap. \<not> includesJS (toLowerCase msg) (fst (severityMap ! i)))
      \<longrightarrow> extractSeverity msg = 1) \<and>
   (\<forall>i<length severityMap.
      includesJS (toLowerCase msg) (fst (severityMap ! i)) \<and>
      (\<forall>j<i. \<not> includesJS (toLowerCase msg) (fst (severityMap ! j)))
      \<longrightarrow> extractSeverity msg = snd (severityMap ! i)) \<and>
   (includesJS (toLowerCase msg) ''mild'' \<and> includesJS (toLowerCase msg) ''severe''
      \<longrightarrow> extractSeverity msg = 3)"
proof (intro conjI impI allI)
  assume "\<forall>i<length severityMap. \<not> includesJS (toLowerCase msg) (fst (severityMap ! i))"
  then show "extractSeverity msg = 1"
    unfolding extractSeverity_def by (rule scanEntries_none)
next
  fix i
  assume "i < length severityMap"
    and "includesJS (toLowerCase msg) (fst (severityMap ! i)) \<and>
      (\<forall>j<i. \<not> includesJS (toLowerCase msg) (fst (severityMap ! j)))"
  then show "extractSeverity msg = snd (severityMap ! i)"
    unfolding extractSeverity_def by (simp add: scanEntries_first)
next
  assume "includesJS (toLowerCase msg) ''mild'' \<and> includesJS (toLowerCase msg) ''severe''"
  then show "extractSeverity msg = 3"
    by (simp add: extractSeverity_def severityMap_def)
qed

theorem extractSeverity_priority_witness:
  "extractSeverity ''I feel tired'' = 1 \<and>
   includesJS (toLowerCase ''a Moderate fever'') ''moderate'' \<and>
   \<not> includesJS (toLowerCase ''a Moderate fever'') ''severe'' \<and>
   \<not> includesJS (toLowerCase ''a Moderate fever'') ''high'' \<and>
   \<not> includesJS (toLowerCase ''a Moderate fever'') ''bad'' \<and>
   extractSeverity ''a Moderate fever'' = 2 \<and>
   includesJS (toLowerCase ''Mild cough, then SEVERE pain'') ''mild'' \<and>
   includesJS (toLowerCase ''Mild cough, then SEVERE pain'') ''severe'' \<and>
   extractSeverity ''Mild cough, then SEVERE pain'' = 3"
proof -
  have a: "\<forall>i<length severityMap.
      \<not> includesJS (toLowerCase ''I feel tired'') (fst (severityMap ! i))"
    by code_simp
  have b: "3 < length severityMap"
    by (simp add: severityMap_def)
  have c: "includesJS (toLowerCase ''a Moderate fever'') (fst (severityMap ! 3))"
    by code_simp
  have d: "\<forall>j<3. \<not> includesJS (toLowerCase ''a Moderate fever'') (fst (severityMap ! j))"
    by code_simp
  have c': "includesJS (toLowerCase ''a Moderate fever'') ''moderate''"
    by code_simp
  have d0: "\<not> includesJS (toLowerCase ''a Moderate fever'') ''severe''"
    by code_simp
  have d1: "\<not> includesJS (toLowerCase ''a Moderate fever'') ''high''"
    by code_simp
  have d2: "\<not> includesJS (toLowerCase ''a Moderate fever'') ''bad''"
    by code_simp
  have e: "includesJS (toLowerCase ''Mild cough, then SEVERE pain'') ''mild''"
    by code_simp
  have f: "includesJS (toLowerCase ''Mild cough, then SEVERE pain'') ''severe''"
    by code_simp
  have v: "snd (severityMap ! 3) = 2"
    by (simp add: severityMap_def)
  from extractSeverity_priority [of "''I feel tired''"] a
  have r1: "extractSeverity ''I feel tired'' = 1" by blast
  from extractSeverity_priority [of "''a Moderate fever''"] b c d
  have "extractSeverity ''a Moderate fever'' = snd (severityMap ! 3)" by blast
  then have r2: "extractSeverity ''a Moderate fever'' = 2" using v by simp
  from extractSeverity_priority [of "''Mild cough, then SEVERE pain''"] e f
  have r3: "extractSeverity ''Mild cough, then SEVERE pain'' = 3" by blast
  show ?thesis
    using r1 c' d0 d1 d2 r2 e f r3 by (intro conjI) assumption+
qed

text \<open>
  C3. Every symptom slot \<open>i\<close> from 6 to 45 holds the severity of the message when the
  slot's name, underscores turned into spaces, occurs in the lower-cased text, and 0
  otherwise. The test is a substring test: a text with "dry cough" sets the slot of
  "cough" (7) as well as the slot of "dry cough" (31).
\<close>

theorem buildFeatureVector_symptom_slots:
  "(6 \<le> i \<and> i < 46 \<longrightarrow>
     buildFeatureVector text ! i =
       (if includesJS (toLowerCase text) (replaceUnderscores (FEATURE_NAMES ! i))
        then extractSeverity text else 0)) \<and>
   (includesJS (toLowerCase text) ''dry cough'' \<longrightarrow>
     buildFeatureVector text ! 7 = extractSeverity text \<and>
     buildFeatureVector text ! 31 = extractSeverity text)"
proof (intro conjI impI)
  assume "6 \<le> i \<and> i < 46"
  then show "buildFeatureVector text ! i =
       (if includesJS (toLowerCase text) (replaceUnderscores (FEATURE_NAMES ! i))
        then extractSeverity text else 0)"
    by (simp add: buildFeatureVector_def Let_def forEachName_nth length_FEATURE_NAMES
        extractSeverity_lower)
next
  assume dry: "includesJS (toLowerCase text) ''dry cough''"
  then have cough: "includesJS (toLowerCase text) ''cough''"
    using cough_in_dry_cough by (rule includes_nested)
  show "buildFeatureVector text ! 7 = extractSeverity text"
    using cough
    by (simp add: buildFeatureVector_def Let_def forEachName_nth length_FEATURE_NAMES
        extractSeverity_lower symptom_cough)
next
  assume dry: "includesJS (toLowerCase text) ''dry cough''"
  then show "buildFeatureVector text ! 31 = extractSeverity text"
    by (simp add: buildFeatureVector_def Let_def forEachName_nth length_FEATURE_NAMES
        extractSeverity_lower symptom_dry_cough)
qed

theorem buildFeatureVector_symptom_slots_witness:
  "(6::nat) \<le> 10 \<and> (10::nat) < 46 \<and>
   includesJS (toLowerCase ''Bad DRY COUGH and fever'') ''dry cough'' \<and>
   buildFeatureVector ''Bad DRY COUGH and fever'' ! 10 =
     (if includesJS (toLowerCase ''Bad DRY COUGH and fever'')
           (replaceUnderscores (FEATURE_NAMES ! 10))
      then extractSeverity ''Bad DRY COUGH and fever'' else 0) \<and>
   buildFeatureVector ''Bad DRY COUGH and fever'' ! 7 =
     extractSeverity ''Bad DRY COUGH and fever'' \<and>
   buildFeatureVector ''Bad DRY COUGH and fever'' ! 31 =
     extractSeverity ''Bad DRY COUGH and fever''"
proof -
  have dry: "includesJS (toLowerCase ''Bad DRY COUGH and fever'') ''dry cough''"
    by code_simp
  have rng: "(6::nat) \<le> 10 \<and> (10::nat) < 46"
    by simp
  from buildFeatureVector_symptom_slots [of 10 "''Bad DRY COUGH and fever''"] dry rng
  show ?thesis by blast
qed

section \<open>Facts about rounding\<close>

lemma pow2_powr: "pow2 e = 2 powr of_int e"
proof (cases "0 \<le> e")
  case True
  then show ?thesis
    by (simp add: pow2_def powr_realpow [symmetric])
next
  case False
  have "(2::real) powr of_int e = 1 / 2 powr of_int (- e)"
    by (simp add: powr_minus_divide)
  also have "\<dots> = 1 / 2 ^ nat (- e)"
    using False by (simp add: powr_realpow [symmetric])
  finally show ?thesis using False by (simp add: pow2_def)
qed

lemma pow2_pos: "0 < pow2 e"
  by (simp add: pow2_powr)

lemma pow2_add: "pow2 (a + b) = pow2 a * pow2 b"
  by (simp add: pow2_powr powr_add)

lemma pow2_mono: "a \<le> b \<Longrightarrow> pow2 a \<le> pow2 b"
  by (simp add: pow2_powr)

lemma pow2_nat: "pow2 (int n) = 2 ^ n"
  by (simp add: pow2_def)

lemma pow2_neg: "pow2 (- int n) = 1 / 2 ^ n"
  by (cases n) (simp_all add: pow2_def nat_add_distrib)

lemma floor_log2_bounds:
  assumes "0 < x"
  shows "pow2 \<lfloor>log 2 x\<rfloor> \<le> x" and "x < pow2 (\<lfloor>log 2 x\<rfloor> + 1)"
proof -
  have "2 powr of_int \<lfloor>log 2 x\<rfloor> \<le> 2 powr log 2 x"
    by (rule powr_mono) simp_all
  then show "pow2 \<lfloor>log 2 x\<rfloor> \<le> x"
    using assms by (simp add: pow2_powr)
  have "log 2 x < of_int (\<lfloor>log 2 x\<rfloor> + 1)"
    by linarith
  then have "2 powr log 2 x < 2 powr of_int (\<lfloor>log 2 x\<rfloor> + 1)"
    by (simp only: powr_less_cancel_iff) 
  then show "x < pow2 (\<lfloor>log 2 x\<rfloor> + 1)"
    using assms by (simp add: pow2_powr)
qed

lemma floor_log2_eq:
  assumes "pow2 k \<le> x" "x < pow2 (k + 1)"
  shows "\<lfloor>log 2 x\<rfloor> = k"
proof -
  have x: "0 < x" using assms(1) pow2_pos [of k] by linarith
  have "of_int k \<le> log 2 x"
    using assms(1) x by (simp add: pow2_powr le_log_iff)
  moreover have "log 2 x < of_int k + 1"
    using assms(2) x by (simp add: pow2_powr log_less_iff)
  ultimately show ?thesis by linarith
qed

lemma roundEven_error: "\<bar>of_int (roundEven q) - q\<bar> \<le> 1 / 2"
  unfolding roundEven_def Let_def by (auto; linarith)

lemma roundEven_of_int: "roundEven (of_int k) = k"
  by (simp add: roundEven_def)

lemma roundEven_nonneg: "0 \<le> q \<Longrightarrow> 0 \<le> roundEven q"
  unfolding roundEven_def Let_def by (auto; linarith)

lemma roundEven_nonpos: "q \<le> 0 \<Longrightarrow> roundEven q \<le> 0"
  unfolding roundEven_def Let_def by (auto; linarith)

lemma pow2_ulpExp_half:
  assumes "x \<noteq> 0"
  shows "pow2 (ulpExp x) / 2 \<le> \<bar>x\<bar> / 2 ^ 53 + 1 / 2 ^ 1075"
proof (cases "- 1022 \<le> \<lfloor>log 2 \<bar>x\<bar>\<rfloor>")
  case True
  have x: "0 < \<bar>x\<bar>" using assms by simp
  have e: "ulpExp x = \<lfloor>log 2 \<bar>x\<bar>\<rfloor> + (- 52)"
    using True by (simp add: ulpExp_def)
  have "pow2 (ulpExp x) = pow2 \<lfloor>log 2 \<bar>x\<bar>\<rfloor> * pow2 (- 52)"
    unfolding e by (rule pow2_add)
  also have "\<dots> \<le> \<bar>x\<bar> * pow2 (- 52)"
    using floor_log2_bounds(1) [OF x] pow2_pos [of "- 52"] by simp
  also have "\<dots> = \<bar>x\<bar> / 2 ^ 52"
    by (simp add: pow2_def)
  finally have "pow2 (ulpExp x) / 2 \<le> \<bar>x\<bar> / 2 ^ 53"
    by simp
  then show ?thesis by (simp add: add_increasing2)
next
  case False
  then have e: "ulpExp x = - 1074"
    by (simp add: ulpExp_def)
  have "pow2 (ulpExp x) / 2 = 1 / 2 ^ 1075"
    unfolding e by (simp add: pow2_def)
  then show ?thesis by simp
qed

lemma rounded_error:
  "\<bar>of_int (roundEven (x / pow2 e)) * pow2 e - x\<bar> \<le> pow2 e / 2"
proof -
  have p: "0 < pow2 e" by (rule pow2_pos)
  have "of_int (roundEven (x / pow2 e)) * pow2 e - x
      = (of_int (roundEven (x / pow2 e)) - x / pow2 e) * pow2 e"
    using p by (simp add: algebra_simps)
  then have "\<bar>of_int (roundEven (x / pow2 e)) * pow2 e - x\<bar>
      = \<bar>of_int (roundEven (x / pow2 e)) - x / pow2 e\<bar> * pow2 e"
    using p by (simp add: abs_mult)
  also have "\<dots> \<le> (1 / 2) * pow2 e"
    using roundEven_error [of "x / pow2 e"] p by (intro mult_right_mono) simp_all
  finally show ?thesis by simp
qed

lemma rd_finite:
  assumes "\<bar>x\<bar> \<le> 2 ^ 1023"
  shows "\<exists>r. rd x = Fin r \<and> \<bar>r - x\<bar> \<le> \<bar>x\<bar> / 2 ^ 53 + 1 / 2 ^ 1075 \<and>
           (0 \<le> x \<longrightarrow> 0 \<le> r) \<and> (x \<le> 0 \<longrightarrow> r \<le> 0)"
proof (cases "x = 0")
  case True
  then show ?thesis by (simp add: rd_def)
next
  case False
  define r where "r = of_int (roundEven (x / pow2 (ulpExp x))) * pow2 (ulpExp x)"
  have p: "0 < pow2 (ulpExp x)" by (rule pow2_pos)
  have err: "\<bar>r - x\<bar> \<le> \<bar>x\<bar> / 2 ^ 53 + 1 / 2 ^ 1075"
    unfolding r_def using rounded_error [of x "ulpExp x"] pow2_ulpExp_half [OF False]
    by linarith
  have "\<bar>x\<bar> / 2 ^ 53 \<le> 2 ^ 1023 / 2 ^ 53"
    using assms by (simp add: divide_right_mono)
  then have "\<bar>r\<bar> \<le> 2 ^ 1023 + 2 ^ 1023 / 2 ^ 53 + 1 / 2 ^ 1075"
    using err assms by linarith
  also have "\<dots> < (2::real) ^ 1024"
    by simp
  finally have bound: "\<bar>r\<bar> < 2 ^ 1024" .
  then have "\<not> 2 ^ 1024 \<le> r" "\<not> r \<le> - (2 ^ 1024)"
    by linarith+
  then have res: "rd x = Fin r"
    using False unfolding rd_def Let_def r_def [symmetric] by (simp only: if_False)
  have pos: "0 \<le> r" if "0 \<le> x"
  proof -
    have "0 \<le> x / pow2 (ulpExp x)" using that p by simp
    then have "0 \<le> roundEven (x / pow2 (ulpExp x))" by (rule roundEven_nonneg)
    then show ?thesis unfolding r_def using p by simp
  qed
  have neg: "r \<le> 0" if "x \<le> 0"
  proof -
    have "x / pow2 (ulpExp x) \<le> 0" using that p by (simp add: divide_nonpos_pos)
    then have "roundEven (x / pow2 (ulpExp x)) \<le> 0" by (rule roundEven_nonpos)
    then show ?thesis unfolding r_def using p by (simp add: mult_nonpos_nonneg)
  qed
  show ?thesis using res err pos neg by blast
qed

lemma rd_nonpos_cases:
  assumes "x \<le> 0"
  shows "rd x = NInf \<or> (\<exists>r. rd x = Fin r \<and> r \<le> 0)"
proof (cases "x = 0")
  case True
  then show ?thesis by (simp add: rd_def)
next
  case False
  define r where "r = of_int (roundEven (x / pow2 (ulpExp x))) * pow2 (ulpExp x)"
  have p: "0 < pow2 (ulpExp x)" by (rule pow2_pos)
  have "x / pow2 (ulpExp x) \<le> 0" using assms p by (simp add: divide_nonpos_pos)
  then have "roundEven (x / pow2 (ulpExp x)) \<le> 0" by (rule roundEven_nonpos)
  then have r: "r \<le> 0" unfolding r_def using p by (simp add: mult_nonpos_nonneg)
  have "(0::real) < 2 ^ 1024" by (rule zero_less_power) simp
  then have "\<not> 2 ^ 1024 \<le> r" using r by linarith
  then show ?thesis
    using False r unfolding rd_def Let_def r_def [symmetric]
    by (cases "r \<le> - (2 ^ 1024)") (simp_all only: if_False if_True, blast+)
qed

lemma rd_representable:
  assumes m: "\<bar>m\<bar> < 2 ^ 53" and e: "- 1074 \<le> e"
    and b: "\<bar>of_int m * pow2 e\<bar> < 2 ^ 1024"
  shows "rd (of_int m * pow2 e) = Fin (of_int m * pow2 e)"
proof (cases "m = 0")
  case True
  then show ?thesis by (simp add: rd_def)
next
  case False
  define x where "x = of_int m * pow2 e"
  have pe: "0 < pow2 e" by (rule pow2_pos)
  have x0: "x \<noteq> 0" using False pe by (simp add: x_def)
  have ax: "\<bar>x\<bar> = of_int \<bar>m\<bar> * pow2 e"
    using pe by (simp add: x_def abs_mult)
  have "of_int \<bar>m\<bar> < (2::real) ^ 53"
    using m by (metis of_int_less_numeral_power_cancel_iff)
  then have "\<bar>x\<bar> < 2 ^ 53 * pow2 e"
    unfolding ax using pe by (simp add: mult_strict_right_mono)
  also have "\<dots> = pow2 (53 + e)"
    unfolding pow2_add by (simp add: pow2_def)
  finally have lt: "\<bar>x\<bar> < pow2 (53 + e)" .
  have "\<lfloor>log 2 \<bar>x\<bar>\<rfloor> < 53 + e"
  proof (rule ccontr)
    assume "\<not> \<lfloor>log 2 \<bar>x\<bar>\<rfloor> < 53 + e"
    then have "pow2 (53 + e) \<le> pow2 \<lfloor>log 2 \<bar>x\<bar>\<rfloor>"
      by (intro pow2_mono) simp
    also have "\<dots> \<le> \<bar>x\<bar>"
      using floor_log2_bounds(1) [of "\<bar>x\<bar>"] x0 by simp
    finally show False using lt by simp
  qed
  then have ue: "ulpExp x \<le> e"
    using e by (simp add: ulpExp_def)
  define u where "u = ulpExp x"
  define k where "k = nat (e - u)"
  have pu: "0 < pow2 u" by (rule pow2_pos)
  have ek: "e = u + int k" using ue by (simp add: k_def u_def)
  have "pow2 e = pow2 u * 2 ^ k"
    by (subst ek) (simp add: pow2_add pow2_nat)
  then have "x = (of_int m * 2 ^ k) * pow2 u"
    by (simp add: x_def)
  then have q: "x / pow2 u = of_int (m * 2 ^ k)" and qx: "of_int (m * 2 ^ k) * pow2 u = x"
    using pu by simp_all
  have "of_int (roundEven (x / pow2 (ulpExp x))) * pow2 (ulpExp x) = x"
    unfolding u_def [symmetric] q roundEven_of_int by (rule qx)
  moreover have "\<not> 2 ^ 1024 \<le> x" "\<not> x \<le> - (2 ^ 1024)"
    using b unfolding x_def [symmetric] by linarith+
  ultimately have "rd x = Fin x"
    using x0 unfolding rd_def Let_def by (simp only: if_False)
  then show ?thesis by (simp only: x_def)
qed

lemma rd_of_int:
  assumes "\<bar>k\<bar> < 2 ^ 53"
  shows "rd (of_int k) = Fin (of_int k)"
proof -
  have "\<bar>of_int k :: real\<bar> < 2 ^ 53"
    using assms by (metis of_int_abs of_int_less_numeral_power_cancel_iff)
  then have "\<bar>of_int k * pow2 0\<bar> < 2 ^ 1024"
    by (simp add: pow2_def)
  then have "rd (of_int k * pow2 0) = Fin (of_int k * pow2 0)"
    using assms by (intro rd_representable) simp_all
  then show ?thesis by (simp add: pow2_def)
qed

lemma rd_0: "rd 0 = Fin 0"
  by (simp add: rd_def)

lemma rd_1: "rd 1 = Fin 1"
  using rd_of_int [of 1] by simp

lemma rd_numeral: "numeral n < (2::int) ^ 53 \<Longrightarrow> rd (numeral n) = Fin (numeral n)"
  using rd_of_int [of "numeral n"] by simp

lemma rd_overflow:
  assumes "2 ^ 1024 \<le> x"
  shows "rd x = PInf"
proof -
  have x: "0 < x"
    using assms by (smt (verit) zero_less_power)
  define fl where "fl = \<lfloor>log 2 \<bar>x\<bar>\<rfloor>"
  have ax: "\<bar>x\<bar> = x" using x by simp
  have lo: "pow2 fl \<le> x" and hi: "x < pow2 (fl + 1)"
    using floor_log2_bounds [of "\<bar>x\<bar>"] x unfolding fl_def ax by simp_all
  have "pow2 1024 \<le> x"
    using assms by (simp add: pow2_def)
  then have "pow2 1024 < pow2 (fl + 1)"
    using hi by linarith
  then have fl: "1024 \<le> fl"
    using pow2_mono [of "fl + 1" 1024] by (cases "1024 \<le> fl") auto
  then have e: "ulpExp x = fl + (- 52)"
    by (simp add: ulpExp_def fl_def)
  define P where "P = pow2 (ulpExp x)"
  have P: "0 < P" unfolding P_def by (rule pow2_pos)
  have flP: "pow2 fl = 2 ^ 52 * P"
  proof -
    have "pow2 fl = pow2 (52 + ulpExp x)" by (simp add: e)
    also have "\<dots> = pow2 52 * pow2 (ulpExp x)" by (rule pow2_add)
    finally show ?thesis by (simp add: P_def pow2_def)
  qed
  have "2 ^ 52 \<le> x / P"
    using lo P unfolding flP by (simp add: pos_le_divide_eq)
  then have "2 ^ 52 - 1 / 2 \<le> real_of_int (roundEven (x / P))"
    using roundEven_error [of "x / P"] by linarith
  then have "real_of_int (2 ^ 52) - 1 / 2 \<le> real_of_int (roundEven (x / P))"
    by simp
  then have "(2::int) ^ 52 \<le> roundEven (x / P)"
    by linarith
  then have "(2::real) ^ 52 \<le> of_int (roundEven (x / P))"
    by (metis of_int_le_iff of_int_numeral of_int_power)
  then have "2 ^ 52 * P \<le> of_int (roundEven (x / P)) * P"
    using P by (simp add: mult_right_mono)
  then have "pow2 1024 \<le> of_int (roundEven (x / P)) * P"
    using pow2_mono [OF fl] flP by linarith
  then have "2 ^ 1024 \<le> of_int (roundEven (x / P)) * P"
    by (simp add: pow2_def)
  then show ?thesis
    using x unfolding rd_def Let_def P_def by (simp only: if_True) simp
qed

section \<open>Facts about the numbers\<close>

lemma js_add_NaN_right: "js_add x NaN = NaN"
  by (cases x) simp_all

lemma js_sub_NaN_right: "js_sub x NaN = NaN"
  by (simp add: js_sub_def js_add_NaN_right)


lemma js_sub_Fin: "js_sub (Fin a) (Fin b) = rd (a - b)"
  by (simp add: js_sub_def)

lemma scaleFrom_present:
  "mean sc = Some m \<Longrightarrow> std sc = Some s \<Longrightarrow>
   scaleFrom i vs sc =
     Inr (map (\<lambda>k. js_div (js_sub (vs ! k) (meanAt m (i + k))) (stdOrOne s (i + k)))
            [0..<length vs])"
proof (induction vs arbitrary: i)
  case Nil
  then show ?case by simp
next
  case (Cons v vs)
  then show ?case
    by (simp add: map_upt_Suc del: upt_Suc)
qed

lemma scaleInput_present:
  "mean sc = Some m \<Longrightarrow> std sc = Some s \<Longrightarrow>
   scaleInput v sc =
     Inr (map (\<lambda>k. js_div (js_sub (v ! k) (meanAt m k)) (stdOrOne s k)) [0..<length v])"
  by (simp add: scaleInput_def scaleFrom_present)

lemma handler_placeholder_status:
  assumes "httpMethod req = ''POST''" "payload req = Body (NumArray v)"
    and "mean (scaler files) = Some m" "std (scaler files) = Some s"
    and "scorer files = predictXGB L"
  shows "status (handler req (Inr files)) = 200"
proof -
  obtain scaled where sc: "scaleInput v (scaler files) = Inr scaled"
    using scaleInput_present [OF assms(3) assms(4)] by blast
  obtain logits where lg: "scorer files (JArr (map JNum scaled)) = Inr logits"
    using assms(5) by simp
  show ?thesis
    using assms(1) assms(2) sc lg by (simp add: handler_def Let_def)
qed

section \<open>Facts about normalising and selecting\<close>

text \<open>
  The rounding error of softmax. The exponentials lie between 0 and 1 (up to one
  rounding) and the one of the largest logit is exactly 1, so their exact sum \<open>T\<close> is at
  least 1. Each of the \<open>n\<close> additions adds a relative error of at most \<open>2 ^ -53\<close>, which
  keeps the computed sum within \<open>2 * n * (T / 2 ^ 53 + 2 ^ -1075)\<close> of \<open>T\<close>; each division
  adds one more rounding.
\<close>

lemma foldl_max2_Fin:
  "foldl max2 (Fin a) (map Fin xs) = Fin (Max (insert a (set xs)))"
proof (induction xs arbitrary: a)
  case Nil
  then show ?case by simp
next
  case (Cons x xs)
  have "max2 (Fin a) (Fin x) = Fin (max a x)"
    by (simp add: max_def)
  moreover have "Max (insert (max a x) (set xs)) = Max (insert a (set (x # xs)))"
    by (cases "set xs = {}") (simp_all add: max.assoc)
  ultimately show ?case
    by (simp add: Cons.IH)
qed

lemma Math_max_Fin:
  "xs \<noteq> [] \<Longrightarrow> Math_max (map Fin xs) = Fin (Max (set xs))"
proof (cases xs)
  case Nil
  then show "xs \<noteq> [] \<Longrightarrow> ?thesis" by simp
next
  case (Cons x ys)
  have "max2 NInf (Fin x) = Fin x" by simp
  then show ?thesis
    by (simp add: Math_max_def Cons foldl_max2_Fin)
qed

lemma exp_term:
  assumes "x \<le> M"
  shows "\<exists>e. js_exp (js_sub (Fin x) (Fin M)) = Fin e \<and> 0 \<le> e \<and> e \<le> 1 + 1 / 2 ^ 52"
proof -
  have "x - M \<le> 0" using assms by simp
  then consider "rd (x - M) = NInf" | r where "rd (x - M) = Fin r" "r \<le> 0"
    using rd_nonpos_cases [of "x - M"] by blast
  then show ?thesis
  proof cases
    case 1
    then show ?thesis by (simp add: js_sub_Fin)
  next
    case 2
    have e1: "0 < exp r" "exp r \<le> 1" using 2(2) by simp_all
    have "(1::real) \<le> 2 ^ 1023" by simp
    then have "\<bar>exp r\<bar> \<le> 2 ^ 1023" using e1 by linarith
    then obtain e where e: "rd (exp r) = Fin e"
        "\<bar>e - exp r\<bar> \<le> \<bar>exp r\<bar> / 2 ^ 53 + 1 / 2 ^ 1075" "0 \<le> exp r \<longrightarrow> 0 \<le> e"
      using rd_finite [of "exp r"] by blast
    have "\<bar>exp r\<bar> / 2 ^ 53 \<le> 1 / 2 ^ 53"
      using e1 by (simp add: divide_right_mono)
    moreover have "(1::real) / 2 ^ 1075 \<le> 1 / 2 ^ 53"
      by simp
    moreover have "(1::real) / 2 ^ 53 + 1 / 2 ^ 53 = 1 / 2 ^ 52"
      by simp
    ultimately have "e \<le> 1 + 1 / 2 ^ 52"
      using e(2) e1 by linarith
    moreover have "0 \<le> e" using e(3) e1 by simp
    ultimately show ?thesis
      using 2(1) e(1) by (simp add: js_sub_Fin)
  qed
qed

lemma exp_term_max: "js_exp (js_sub (Fin M) (Fin M)) = Fin 1"
  by (simp add: js_sub_Fin rd_0 rd_1)

lemma foldl_add_error:
  fixes Tm :: real
  assumes "\<forall>e\<in>set es. 0 \<le> e" and "0 \<le> t" and "t + sum_list es \<le> Tm"
    and "\<bar>a - t\<bar> \<le> 2 * real k * (Tm / 2 ^ 53 + 1 / 2 ^ 1075)"
    and "k + length es \<le> 2 ^ 50" and "Tm \<le> 2 ^ 1000"
  shows "\<exists>s. foldl js_add (Fin a) (map Fin es) = Fin s \<and>
           \<bar>s - (t + sum_list es)\<bar> \<le> 2 * real (k + length es) * (Tm / 2 ^ 53 + 1 / 2 ^ 1075)"
  using assms
proof (induction es arbitrary: a t k)
  case Nil
  then show ?case by simp
next
  case (Cons e es)
  define eta :: real where "eta = 1 / 2 ^ 1075"
  define big :: real where "big = 2 ^ 1023"
  define c where "c = Tm / 2 ^ 53 + eta"
  have eta0: "0 \<le> eta" and eta1: "2 * 2 ^ 50 * eta \<le> 1"
    by (simp_all add: eta_def)
  have e0: "0 \<le> e" and nn: "\<forall>e\<in>set es. 0 \<le> e"
    using Cons.prems(1) by simp_all
  have s0: "0 \<le> sum_list es"
    using nn by (simp add: sum_list_nonneg)
  have te: "t + e \<le> Tm" and tot: "(t + e) + sum_list es \<le> Tm"
    using Cons.prems(3) s0 by simp_all
  have Tm0: "0 \<le> Tm" using te Cons.prems(2) e0 by linarith
  have c0: "0 \<le> c" unfolding c_def using Tm0 eta0 by simp
  have "k \<le> 2 ^ 50" using Cons.prems(5) by simp
  then have "real k \<le> real (2 ^ 50)" by (rule of_nat_mono)
  then have k: "real k \<le> 2 ^ 50" by simp
  have k1: "Suc k + length es \<le> 2 ^ 50"
    using Cons.prems(5) by simp
  have err: "\<bar>a - t\<bar> \<le> 2 * real k * c"
    using Cons.prems(4) by (simp add: c_def eta_def)
  have "real k * c \<le> 2 ^ 50 * c"
    using k c0 by (rule mult_right_mono)
  then have kc: "2 * real k * c \<le> 2 * 2 ^ 50 * c"
    by linarith
  have "2 * 2 ^ 50 * c = Tm / 4 + 2 * 2 ^ 50 * eta"
    unfolding c_def by simp
  then have kc': "2 * 2 ^ 50 * c \<le> Tm / 4 + 1"
    using eta1 by linarith
  have ae: "\<bar>a + e\<bar> \<le> Tm + 2 * real k * c"
    using err te e0 Cons.prems(2) by linarith
  have "Tm + (Tm / 4 + 1) \<le> 2 ^ 1023"
    using Cons.prems(6) by simp
  then have "Tm + (Tm / 4 + 1) \<le> big"
    by (simp only: big_def)
  then have "\<bar>a + e\<bar> \<le> big"
    using ae kc kc' by linarith
  then have "\<bar>a + e\<bar> \<le> 2 ^ 1023"
    by (simp only: big_def)
  then obtain a' where a': "rd (a + e) = Fin a'"
      "\<bar>a' - (a + e)\<bar> \<le> \<bar>a + e\<bar> / 2 ^ 53 + 1 / 2 ^ 1075"
    using rd_finite [of "a + e"] by blast
  have a'2: "\<bar>a' - (a + e)\<bar> \<le> \<bar>a + e\<bar> / 2 ^ 53 + eta"
    using a'(2) by (simp only: eta_def)
  have "\<bar>a + e\<bar> / 2 ^ 53 \<le> (Tm + 2 * real k * c) / 2 ^ 53"
    using ae by (simp add: divide_right_mono)
  also have "\<dots> = Tm / 2 ^ 53 + 2 * real k * c / 2 ^ 53"
    by (simp add: add_divide_distrib)
  finally have r1: "\<bar>a' - (a + e)\<bar> \<le> c + 2 * real k * c / 2 ^ 53"
    using a'2 unfolding c_def by linarith
  have "2 * real k * c / 2 ^ 53 \<le> 2 * 2 ^ 50 * c / 2 ^ 53"
    using kc by (simp add: divide_right_mono)
  also have "\<dots> \<le> c"
    using c0 by simp
  finally have r2: "2 * real k * c / 2 ^ 53 \<le> c" .
  have "\<bar>a' - (t + e)\<bar> \<le> \<bar>a' - (a + e)\<bar> + \<bar>a - t\<bar>"
    by linarith
  also have "\<dots> \<le> (c + c) + 2 * real k * c"
    using r1 r2 err by linarith
  also have "\<dots> = 2 * real (Suc k) * c"
    by (simp add: algebra_simps)
  finally have err': "\<bar>a' - (t + e)\<bar> \<le> 2 * real (Suc k) * (Tm / 2 ^ 53 + 1 / 2 ^ 1075)"
    by (simp only: c_def eta_def)
  have t0: "0 \<le> t + e" using Cons.prems(2) e0 by simp
  obtain s where s: "foldl js_add (Fin a') (map Fin es) = Fin s"
      "\<bar>s - ((t + e) + sum_list es)\<bar>
         \<le> 2 * real (Suc k + length es) * (Tm / 2 ^ 53 + 1 / 2 ^ 1075)"
    using Cons.IH [OF nn t0 tot err' k1 Cons.prems(6)] by blast
  have "foldl js_add (Fin a) (map Fin (e # es)) = Fin s"
    using s(1) a'(1) by simp
  moreover have "k + length (e # es) = Suc k + length es" "t + sum_list (e # es) = (t + e) + sum_list es"
    by simp_all
  ultimately show ?case using s(2) by metis
qed

lemma sum_list_abs_diff:
  fixes f g h :: "'a \<Rightarrow> real"
  assumes "\<forall>x\<in>set xs. \<bar>f x - g x\<bar> \<le> h x"
  shows "\<bar>sum_list (map f xs) - sum_list (map g xs)\<bar> \<le> sum_list (map h xs)"
  using assms
proof (induction xs)
  case Nil
  then show ?case by simp
next
  case (Cons x xs)
  then have "\<bar>f x - g x\<bar> \<le> h x"
    and "\<bar>sum_list (map f xs) - sum_list (map g xs)\<bar> \<le> sum_list (map h xs)"
    by simp_all
  then show ?case by simp
qed

lemma sum_list_le_length:
  fixes es :: "real list"
  assumes "\<forall>e\<in>set es. e \<le> b"
  shows "sum_list es \<le> real (length es) * b"
  using assms by (induction es) (simp_all add: algebra_simps)

lemma member_le_sum_list_real:
  fixes es :: "real list"
  assumes "x \<in> set es" "\<forall>e\<in>set es. 0 \<le> e"
  shows "x \<le> sum_list es"
  using assms
proof (induction es)
  case Nil
  then show ?case by simp
next
  case (Cons e es)
  have "0 \<le> sum_list es" using Cons.prems(2) by (simp add: sum_list_nonneg)
  then show ?case using Cons by auto
qed

lemma sum_list_divide: "sum_list (map (\<lambda>x. x / c) xs) = sum_list xs / c" for c :: real
  by (induction xs) (simp_all add: add_divide_distrib)

lemma sum_list_affine:
  "sum_list (map (\<lambda>e. e * a + b) es) = sum_list es * a + real (length es) * b" for a b :: real
  by (induction es) (simp_all add: algebra_simps)

lemma softmax_rounded:
  assumes ne: "xs \<noteq> []" and len: "length xs \<le> 1000000"
  shows "\<exists>ps. softmax (map Fin xs) = map Fin ps \<and> length ps = length xs \<and>
           (\<forall>p\<in>set ps. 0 \<le> p) \<and> \<bar>sum_list ps - 1\<bar> \<le> 1 / 10 ^ 9"
proof -
  define eta :: real where "eta = 1 / 2 ^ 1075"
  define u :: real where "u = 1 / 2 ^ 53"
  have eta0: "0 \<le> eta" and eta6: "2 * 1000000 * eta \<le> 1 / 1000000000000"
    by (simp_all add: eta_def)
  have u0: "0 \<le> u" and u6: "2 * 1000000 * u \<le> 23 / 100000000000" and u1: "2 * u \<le> 1 / 1000000000000"
    by (simp_all add: u_def)
  define M where "M = Max (set xs)"
  define n where "n = length xs"
  have mx: "Math_max (map Fin xs) = Fin M"
    unfolding M_def using ne by (rule Math_max_Fin)
  have le: "x \<le> M" if "x \<in> set xs" for x
    unfolding M_def using that by simp
  have Min: "M \<in> set xs"
    unfolding M_def using ne by simp
  define f where "f x = finval (js_exp (js_sub (Fin x) (Fin M)))" for x
  have fx: "js_exp (js_sub (Fin x) (Fin M)) = Fin (f x) \<and> 0 \<le> f x \<and> f x \<le> 1 + 1 / 2 ^ 52"
    if "x \<in> set xs" for x
    using exp_term [OF le [OF that]] unfolding f_def by auto
  have fM: "f M = 1"
    unfolding f_def by (simp add: exp_term_max)
  define es where "es = map f xs"
  have exps: "map (\<lambda>x. js_exp (js_sub x (Fin M))) (map Fin xs) = map Fin es"
    unfolding es_def using fx by simp
  have nn: "\<forall>e\<in>set es. 0 \<le> e" and ub: "\<forall>e\<in>set es. e \<le> 1 + 1 / 2 ^ 52"
    unfolding es_def using fx by auto
  have one: "1 \<in> set es"
    unfolding es_def using Min fM by force
  have les: "length es = n"
    by (simp add: es_def n_def)
  define T where "T = sum_list es"
  have T1: "1 \<le> T"
    unfolding T_def using one nn by (rule member_le_sum_list_real)
  have "real n \<le> real 1000000"
    unfolding n_def using len by (rule of_nat_mono)
  then have n6: "real n \<le> 1000000"
    by simp
  have "T \<le> real n * (1 + 1 / 2 ^ 52)"
    unfolding T_def les [symmetric] using ub by (rule sum_list_le_length)
  also have "\<dots> \<le> 1000000 * (1 + 1 / 2 ^ 52)"
    using n6 by (simp add: mult_right_mono)
  also have "\<dots> \<le> 2 ^ 1000"
    by simp
  finally have Tb: "T \<le> 2 ^ 1000" .
  have n50: "0 + length es \<le> 2 ^ 50"
    using len by (simp add: les n_def)
  obtain S where S: "foldl js_add (Fin 0) (map Fin es) = Fin S"
      and "\<bar>S - (0 + sum_list es)\<bar> \<le> 2 * real (0 + length es) * (T / 2 ^ 53 + 1 / 2 ^ 1075)"
    using foldl_add_error [of es 0 T 0 0, OF nn _ _ _ n50 Tb] by (auto simp: T_def)
  then have errS: "\<bar>S - T\<bar> \<le> 2 * real n * (T * u + eta)"
    by (simp add: T_def les u_def eta_def)
  have c0: "0 \<le> T * u + eta"
    using T1 u0 eta0 by simp
  have "real n * (T * u + eta) \<le> 1000000 * (T * u + eta)"
    using n6 c0 by (rule mult_right_mono)
  then have "2 * real n * (T * u + eta) \<le> T * (2 * 1000000 * u) + 2 * 1000000 * eta"
    by (simp add: algebra_simps)
  also have "\<dots> \<le> T * (23 / 100000000000) + 1 / 1000000000000"
    using u6 eta6 T1 by (intro add_mono mult_left_mono) simp_all
  also have "\<dots> \<le> T / 4000000000"
    using T1 by simp
  finally have dS: "\<bar>S - T\<bar> \<le> T / 4000000000"
    using errS by linarith
  have "T / 4000000000 \<le> T / 2"
    using T1 by simp
  then have Shalf: "T \<le> 2 * S"
    using dS by linarith
  have Spos: "0 < S"
    using Shalf T1 by linarith
  define R where "R = T / S"
  have R0: "0 \<le> R" and R2: "R \<le> 2"
    unfolding R_def using Spos T1 Shalf by (simp_all add: pos_divide_le_eq)
  define g where "g e = finval (js_div (Fin e) (Fin S))" for e
  have ge: "js_div (Fin e) (Fin S) = Fin (g e) \<and> 0 \<le> g e \<and> \<bar>g e - e / S\<bar> \<le> (e / S) * u + eta"
    if "e \<in> set es" for e
  proof -
    have e0: "0 \<le> e" and e1: "e \<le> 1 + 1 / 2 ^ 52"
      using nn ub that by simp_all
    then have e2: "e \<le> 2"
      by simp
    have q0: "0 \<le> e / S"
      using e0 Spos by simp
    have "e \<le> 4 * S"
      using e2 Shalf T1 by linarith
    then have "e / S \<le> 4"
      using Spos by (simp add: pos_divide_le_eq)
    moreover have "(4::real) \<le> 2 ^ 1023"
      by simp
    ultimately have "\<bar>e / S\<bar> \<le> 2 ^ 1023"
      using q0 by linarith
    then obtain p where p: "rd (e / S) = Fin p"
        "\<bar>p - e / S\<bar> \<le> \<bar>e / S\<bar> / 2 ^ 53 + 1 / 2 ^ 1075" "0 \<le> e / S \<longrightarrow> 0 \<le> p"
      using rd_finite [of "e / S"] by blast
    have d: "js_div (Fin e) (Fin S) = Fin p"
      using Spos p(1) by simp
    have "\<bar>p - e / S\<bar> \<le> (e / S) * u + eta"
      using p(2) q0 by (simp add: u_def eta_def)
    then show ?thesis
      using d p(3) q0 by (simp add: g_def)
  qed
  define ps where "ps = map g es"
  have "map (\<lambda>v. js_div v (Fin S)) (map Fin es) = map Fin ps"
    unfolding ps_def using ge by simp
  then have sm: "softmax (map Fin xs) = map Fin ps"
    unfolding softmax_def Let_def mx exps S by simp
  have lps: "length ps = length xs"
    by (simp add: ps_def es_def)
  have pos: "\<forall>p\<in>set ps. 0 \<le> p"
    unfolding ps_def using ge by auto
  have "\<bar>sum_list (map g es) - sum_list (map (\<lambda>e. e / S) es)\<bar>
      \<le> sum_list (map (\<lambda>e. (e / S) * u + eta) es)"
    by (rule sum_list_abs_diff) (use ge in blast)
  also have "sum_list (map (\<lambda>e. (e / S) * u + eta) es)
      = sum_list (map (\<lambda>e. e / S) es) * u + real n * eta"
    using sum_list_affine [of u eta "map (\<lambda>e. e / S) es"] by (simp add: comp_def les)
  finally have d1: "\<bar>sum_list ps - R\<bar> \<le> R * u + real n * eta"
    by (simp add: ps_def sum_list_divide R_def T_def)
  have "R - 1 = (T - S) / S"
    unfolding R_def using Spos by (simp add: field_simps)
  then have "\<bar>R - 1\<bar> = \<bar>T - S\<bar> / S"
    using Spos by simp
  also have "\<dots> \<le> (T / 4000000000) / S"
  proof (rule divide_right_mono)
    show "\<bar>T - S\<bar> \<le> T / 4000000000"
      using dS by (simp only: abs_minus_commute)
    show "0 \<le> S"
      using Spos by simp
  qed
  also have "\<dots> = R / 4000000000"
    by (simp add: R_def)
  finally have d2: "\<bar>R - 1\<bar> \<le> R / 4000000000" .
  have "R * u \<le> 2 * u"
    using R2 u0 by (rule mult_right_mono)
  then have b1: "R * u \<le> 1 / 1000000000000"
    using u1 by linarith
  have "real n * eta \<le> 1000000 * eta"
    using n6 eta0 by (rule mult_right_mono)
  then have b2: "real n * eta \<le> 1 / 1000000000000"
    using eta6 eta0 by linarith
  have b3: "R / 4000000000 \<le> 5 / 10000000000"
    using R2 by simp
  have "\<bar>sum_list ps - 1\<bar> \<le> \<bar>sum_list ps - R\<bar> + \<bar>R - 1\<bar>"
    by linarith
  also have "\<dots> \<le> 1 / 1000000000000 + 1 / 1000000000000 + 5 / 10000000000"
    using d1 d2 b1 b2 b3 by linarith
  also have "\<dots> \<le> 1 / 10 ^ 9"
    by simp
  finally have tol: "\<bar>sum_list ps - 1\<bar> \<le> 1 / 10 ^ 9" .
  show ?thesis
    using sm lps pos tol by blast
qed

lemma rd_eval:
  assumes "pow2 k \<le> \<bar>x\<bar>" "\<bar>x\<bar> < pow2 (k + 1)" "- 1022 \<le> k"
    and "roundEven (x / pow2 (k - 52)) = n" "\<bar>of_int n * pow2 (k - 52)\<bar> < 2 ^ 1024"
  shows "rd x = Fin (of_int n * pow2 (k - 52))"
proof -
  have x: "x \<noteq> 0"
    using assms(1) pow2_pos [of k] by auto
  have "\<lfloor>log 2 \<bar>x\<bar>\<rfloor> = k"
    using assms(1) assms(2) by (rule floor_log2_eq)
  then have e: "ulpExp x = k - 52"
    using assms(3) by (simp add: ulpExp_def)
  have "\<not> 2 ^ 1024 \<le> of_int n * pow2 (k - 52)" "\<not> of_int n * pow2 (k - 52) \<le> - (2 ^ 1024)"
    using assms(5) by linarith+
  then show ?thesis
    using x unfolding rd_def Let_def e assms(4) by (simp only: if_False)
qed

lemma rd_third: "rd (1 / 3) = Fin (6004799503160661 / 2 ^ 54)"
proof -
  have "rd (1 / 3) = Fin (of_int 6004799503160661 * pow2 (- 2 - 52))"
    by (rule rd_eval) (simp_all add: pow2_def roundEven_def Let_def)
  then show ?thesis by (simp add: pow2_def)
qed

lemma foldl_add_ones:
  "k + m < 2 ^ 53 \<Longrightarrow>
   foldl js_add (Fin (real k)) (replicate m (Fin 1)) = Fin (real (k + m))"
proof (induction m arbitrary: k)
  case 0
  then show ?case by simp
next
  case (Suc m)
  have "int (Suc k) < 2 ^ 53"
    using Suc.prems by (metis add_Suc_right le_add1 le_less_trans of_nat_less_numeral_power_cancel_iff Suc_le_mono add_Suc)
  then have "rd (of_int (int (Suc k))) = Fin (of_int (int (Suc k)))"
    by (intro rd_of_int) simp
  then have step: "js_add (Fin (real k)) (Fin 1) = Fin (real (Suc k))"
    by (simp add: add.commute)
  have "Suc k + m < 2 ^ 53" using Suc.prems by simp
  then have "foldl js_add (Fin (real (Suc k))) (replicate m (Fin 1)) = Fin (real (Suc k + m))"
    by (rule Suc.IH)
  then show ?case using step by simp
qed

lemma softmax_uniform:
  assumes "0 < n" "n \<le> 1000000"
  shows "softmax (replicate n (Fin c)) = replicate n (rd (1 / real n))"
proof -
  have rep: "replicate n (Fin c) = map Fin (replicate n c)" by simp
  have ne: "replicate n c \<noteq> []" using assms(1) by simp
  have "Max (set (replicate n c)) = c" using assms(1) by simp
  then have mx: "Math_max (replicate n (Fin c)) = Fin c"
    unfolding rep using Math_max_Fin [OF ne] by simp
  have exps: "map (\<lambda>x. js_exp (js_sub x (Fin c))) (replicate n (Fin c)) = replicate n (Fin 1)"
    by (simp add: exp_term_max)
  have "0 + n < (2::nat) ^ 53" using assms(2) by simp
  then have "foldl js_add (Fin (real 0)) (replicate n (Fin 1)) = Fin (real (0 + n))"
    by (rule foldl_add_ones)
  then have sum: "foldl js_add (Fin 0) (replicate n (Fin 1)) = Fin (real n)"
    by simp
  have "js_div (Fin 1) (Fin (real n)) = rd (1 / real n)"
    using assms(1) by simp
  then show ?thesis
    unfolding softmax_def Let_def mx exps sum by simp
qed

lemma indexOfFrom_range:
  "indexOfFrom k ys x = - 1 \<or> (k \<le> indexOfFrom k ys x \<and> indexOfFrom k ys x < k + int (length ys))"
proof (induction ys arbitrary: k)
  case Nil
  then show ?case by simp
next
  case (Cons y ys)
  from Cons.IH [of "k + 1"] show ?case by auto
qed

lemma indexOfFrom_found:
  "0 \<le> k \<Longrightarrow> indexOfFrom k ys x \<noteq> - 1 \<Longrightarrow>
   strictEq (ys ! nat (indexOfFrom k ys x - k)) x \<and>
   (\<forall>j<nat (indexOfFrom k ys x - k). \<not> strictEq (ys ! j) x)"
proof (induction ys arbitrary: k)
  case Nil
  then show ?case by simp
next
  case (Cons y ys)
  show ?case
  proof (cases "strictEq y x")
    case True
    then show ?thesis by simp
  next
    case False
    let ?r = "indexOfFrom (k + 1) ys x"
    have r: "indexOfFrom k (y # ys) x = ?r" using False by simp
    have ne: "?r \<noteq> - 1" using Cons.prems r by simp
    have ge: "k + 1 \<le> ?r" using indexOfFrom_range [of "k + 1" ys x] ne by blast
    have ih: "strictEq (ys ! nat (?r - (k + 1))) x \<and>
        (\<forall>j<nat (?r - (k + 1)). \<not> strictEq (ys ! j) x)"
      using Cons.IH [of "k + 1"] Cons.prems ne by simp
    have idx: "nat (?r - k) = Suc (nat (?r - (k + 1)))" using ge by simp
    show ?thesis
      unfolding r idx using ih False by (auto simp: less_Suc_eq_0_disj)
  qed
qed

lemma indexOfFrom_exists:
  "0 \<le> k \<Longrightarrow> j < length ys \<Longrightarrow> strictEq (ys ! j) x \<Longrightarrow> indexOfFrom k ys x \<noteq> - 1"
proof (induction ys arbitrary: k j)
  case Nil
  then show ?case by simp
next
  case (Cons y ys)
  show ?case
  proof (cases "strictEq y x")
    case True
    then show ?thesis using Cons.prems by simp
  next
    case False
    then obtain j' where j': "j = Suc j'" using Cons.prems by (cases j) auto
    then have "indexOfFrom (k + 1) ys x \<noteq> - 1"
      using Cons.IH [of "k + 1" j'] Cons.prems by simp
    then show ?thesis using False by simp
  qed
qed

lemma strictEq_refl: "x \<noteq> NaN \<Longrightarrow> strictEq x x"
  by (cases x) simp_all

lemma strictEq_eq: "strictEq x y \<Longrightarrow> x = y"
  by (cases x; cases y) simp_all

lemma max2_cases: "x \<noteq> NaN \<Longrightarrow> y \<noteq> NaN \<Longrightarrow> max2 x y = x \<or> max2 x y = y"
  by (cases x; cases y) simp_all

lemma js_le_refl: "x \<noteq> NaN \<Longrightarrow> js_le x x"
  by (cases x) simp_all

lemma js_le_trans: "js_le x y \<Longrightarrow> js_le y z \<Longrightarrow> js_le x z"
  by (cases x; cases y; cases z) simp_all

lemma js_le_max2: "x \<noteq> NaN \<Longrightarrow> y \<noteq> NaN \<Longrightarrow> js_le x (max2 x y) \<and> js_le y (max2 x y)"
  by (cases x; cases y) simp_all

lemma foldl_max2_bounds:
  "a \<noteq> NaN \<Longrightarrow> NaN \<notin> set xs \<Longrightarrow>
   foldl max2 a xs \<in> insert a (set xs) \<and> js_le a (foldl max2 a xs) \<and>
   (\<forall>p\<in>set xs. js_le p (foldl max2 a xs))"
proof (induction xs arbitrary: a)
  case Nil
  then show ?case by (simp add: js_le_refl)
next
  case (Cons x xs)
  have xn: "x \<noteq> NaN" and rest: "NaN \<notin> set xs" using Cons.prems by auto
  have mn: "max2 a x \<noteq> NaN"
    using max2_cases [OF Cons.prems(1) xn] Cons.prems(1) xn by auto
  note ih = Cons.IH [OF mn rest]
  have le: "js_le a (max2 a x)" "js_le x (max2 a x)"
    using js_le_max2 [OF Cons.prems(1) xn] by simp_all
  have mem: "foldl max2 (max2 a x) xs \<in> insert a (set (x # xs))"
    using ih max2_cases [OF Cons.prems(1) xn] by auto
  have "js_le a (foldl max2 (max2 a x) xs)" "js_le x (foldl max2 (max2 a x) xs)"
    using ih le js_le_trans by blast+
  then show ?case using ih mem by simp
qed

lemma Math_max_bounds:
  assumes "probs \<noteq> []" "NaN \<notin> set probs"
  shows "Math_max probs \<in> set probs \<and> (\<forall>p\<in>set probs. js_le p (Math_max probs))"
proof -
  obtain x xs where p: "probs = x # xs" using assms(1) by (cases probs) auto
  have xn: "x \<noteq> NaN" and rest: "NaN \<notin> set xs" using assms(2) p by auto
  have m: "max2 NInf x = x" using xn by (cases x) simp_all
  have "foldl max2 x xs \<in> insert x (set xs) \<and> js_le x (foldl max2 x xs) \<and>
      (\<forall>p\<in>set xs. js_le p (foldl max2 x xs))"
    using xn rest by (rule foldl_max2_bounds)
  then show ?thesis by (simp add: Math_max_def p m)
qed






lemma foldl_max2_NaN: "foldl max2 NaN xs = NaN"
  by (induction xs) simp_all

lemma max2_NaN_right: "max2 x NaN = NaN"
  by (cases x) simp_all

lemma foldl_max2_hits_NaN: "NaN \<in> set xs \<Longrightarrow> foldl max2 a xs = NaN"
proof (induction xs arbitrary: a)
  case Nil
  then show ?case by simp
next
  case (Cons x xs)
  show ?case
  proof (cases "x = NaN")
    case True
    then show ?thesis by (simp add: max2_NaN_right foldl_max2_NaN)
  next
    case False
    then show ?thesis using Cons by simp
  qed
qed

lemma Math_max_NaN: "NaN \<in> set xs \<Longrightarrow> Math_max xs = NaN"
  by (simp add: Math_max_def foldl_max2_hits_NaN)

lemma Math_max_empty: "Math_max [] = NInf"
  by (simp add: Math_max_def)

lemma softmax_empty: "softmax [] = []"
  by (simp add: softmax_def)

lemma softmax_NaN:
  "NaN \<in> set logits \<Longrightarrow> softmax logits = replicate (length logits) NaN"
  by (simp add: softmax_def Let_def Math_max_NaN js_sub_NaN_right map_replicate_const comp_def)

lemma strictEq_NaN_right: "\<not> strictEq y NaN"
  by (cases y) simp_all

lemma indexOfFrom_NaN: "indexOfFrom k ys NaN = - 1"
  by (induction ys arbitrary: k) (simp_all add: strictEq_NaN_right)

lemma indexOf_only_NaN:
  "\<forall>p\<in>set probs. p = NaN \<Longrightarrow> indexOf probs (Math_max probs) = - 1"
proof (cases probs)
  case Nil
  then show ?thesis by (simp add: indexOf_def)
next
  case (Cons p ps)
  assume "\<forall>p\<in>set probs. p = NaN"
  then have "NaN \<in> set probs" using Cons by auto
  then show ?thesis by (simp add: Math_max_NaN indexOf_def indexOfFrom_NaN)
qed

lemma select_only_NaN:
  "\<forall>p\<in>set probs. p = NaN \<Longrightarrow> select ls probs = Index (- 1)"
  by (simp add: select_def indexOf_only_NaN labelAt_def)

lemma handler_success:
  "httpMethod req = ''POST'' \<Longrightarrow> payload req = Body (NumArray v) \<Longrightarrow>
   scaleInput v (scaler files) = Inr scaled \<Longrightarrow>
   scorer files (JArr (map JNum scaled)) = Inr logits \<Longrightarrow>
   handler req (Inr files) =
     Response 200 (Result (select (labels files) (softmax logits)) (softmax logits))"
  by (simp add: handler_def Let_def)


section \<open>The scaler\<close>

text \<open>
  C4. For a vector and a scaler of the same length, scaling succeeds and works entry by
  entry: entry \<open>i\<close> is \<open>(v[i] - mean[i]) / (std[i] || 1)\<close>. A std of 0 counts as 1, so the
  entry is then \<open>(v[i] - mean[i]) / 1\<close> and nothing is divided by zero. Nothing is
  clamped: on finite values the entry is the rounded difference divided by the std (or
  by 1), and a difference that overflows reaches the result as Infinity.
\<close>

theorem scaleInput_elementwise:
  "mean sc = Some m \<and> std sc = Some s \<and> length v = length m \<and> length m = length s \<longrightarrow>
   (\<exists>out. scaleInput v sc = Inr out \<and> length out = length v \<and>
      (\<forall>i<length v.
         out ! i = js_div (js_sub (v ! i) (m ! i)) (if truthy (s ! i) then s ! i else Fin 1)) \<and>
      (\<forall>i<length v. s ! i = Fin 0 \<longrightarrow> out ! i = js_div (js_sub (v ! i) (m ! i)) (Fin 1)) \<and>
      (\<forall>i<length v. \<forall>x mu sd. v ! i = Fin x \<and> m ! i = Fin mu \<and> s ! i = Fin sd \<longrightarrow>
         out ! i = js_div (rd (x - mu)) (Fin (if sd = 0 then 1 else sd))) \<and>
      (\<forall>i<length v. \<forall>x mu. v ! i = Fin x \<and> m ! i = Fin mu \<and> s ! i = Fin 1 \<and>
         2 ^ 1024 \<le> x - mu \<longrightarrow> out ! i = PInf))"
proof (intro impI)
  assume h: "mean sc = Some m \<and> std sc = Some s \<and> length v = length m \<and> length m = length s"
  define out where
    "out = map (\<lambda>k. js_div (js_sub (v ! k) (meanAt m k)) (stdOrOne s k)) [0..<length v]"
  have res: "scaleInput v sc = Inr out"
    using h by (simp add: scaleInput_present out_def)
  have len: "length out = length v"
    by (simp add: out_def)
  have nth: "out ! i = js_div (js_sub (v ! i) (m ! i)) (if truthy (s ! i) then s ! i else Fin 1)"
    if "i < length v" for i
    using that h by (simp add: out_def meanAt_def stdOrOne_def)
  have zero: "out ! i = js_div (js_sub (v ! i) (m ! i)) (Fin 1)"
    if "i < length v" "s ! i = Fin 0" for i
    using that nth [of i] by simp
  have fin: "out ! i = js_div (rd (x - mu)) (Fin (if sd = 0 then 1 else sd))"
    if "i < length v" "v ! i = Fin x \<and> m ! i = Fin mu \<and> s ! i = Fin sd" for i x mu sd
    using that nth [of i] by (simp add: js_sub_Fin)
  have inf: "out ! i = PInf"
    if "i < length v" "v ! i = Fin x \<and> m ! i = Fin mu \<and> s ! i = Fin 1 \<and> 2 ^ 1024 \<le> x - mu"
    for i x mu
  proof -
    have "rd (x - mu) = PInf"
      using that(2) by (intro rd_overflow) simp
    then show ?thesis
      using fin [of i x mu 1] that by simp
  qed
  show "\<exists>out. scaleInput v sc = Inr out \<and> length out = length v \<and>
      (\<forall>i<length v.
         out ! i = js_div (js_sub (v ! i) (m ! i)) (if truthy (s ! i) then s ! i else Fin 1)) \<and>
      (\<forall>i<length v. s ! i = Fin 0 \<longrightarrow> out ! i = js_div (js_sub (v ! i) (m ! i)) (Fin 1)) \<and>
      (\<forall>i<length v. \<forall>x mu sd. v ! i = Fin x \<and> m ! i = Fin mu \<and> s ! i = Fin sd \<longrightarrow>
         out ! i = js_div (rd (x - mu)) (Fin (if sd = 0 then 1 else sd))) \<and>
      (\<forall>i<length v. \<forall>x mu. v ! i = Fin x \<and> m ! i = Fin mu \<and> s ! i = Fin 1 \<and>
         2 ^ 1024 \<le> x - mu \<longrightarrow> out ! i = PInf)"
    using res len nth zero fin inf by blast
qed

theorem scaleInput_elementwise_witness:
  "mean \<lparr>mean = Some [Fin 1, Fin 2], std = Some [Fin 2, Fin 0]\<rparr> = Some [Fin 1, Fin 2] \<and>
   std \<lparr>mean = Some [Fin 1, Fin 2], std = Some [Fin 2, Fin 0]\<rparr> = Some [Fin 2, Fin 0] \<and>
   length [Fin 5, Fin 7] = length [Fin 1, Fin 2] \<and>
   length [Fin 1, Fin 2] = length [Fin 2, Fin 0] \<and>
   (\<exists>out. scaleInput [Fin 5, Fin 7] \<lparr>mean = Some [Fin 1, Fin 2], std = Some [Fin 2, Fin 0]\<rparr>
            = Inr out \<and>
      length out = length [Fin 5, Fin 7] \<and>
      (\<forall>i<length [Fin 5, Fin 7].
         [Fin 2, Fin 0] ! i = Fin 0 \<longrightarrow>
         out ! i = js_div (js_sub ([Fin 5, Fin 7] ! i) ([Fin 1, Fin 2] ! i)) (Fin 1))) \<and>
   scaleInput [Fin 5, Fin 7] \<lparr>mean = Some [Fin 1, Fin 2], std = Some [Fin 2, Fin 0]\<rparr>
     = Inr [Fin 2, Fin 5] \<and>
   (2::real) ^ 1024 \<le> 2 ^ 1023 - (- (2 ^ 1023)) \<and>
   scaleInput [Fin (2 ^ 1023)] \<lparr>mean = Some [Fin (- (2 ^ 1023))], std = Some [Fin 1]\<rparr>
     = Inr [PInf]"
proof -
  let ?sc = "\<lparr>mean = Some [Fin 1, Fin 2], std = Some [Fin 2, Fin 0]\<rparr>"
  let ?big = "\<lparr>mean = Some [Fin (- (2 ^ 1023))], std = Some [Fin 1]\<rparr>"
  have h: "mean ?sc = Some [Fin 1, Fin 2] \<and> std ?sc = Some [Fin 2, Fin 0] \<and>
      length [Fin 5, Fin 7] = length [Fin 1, Fin 2] \<and>
      length [Fin 1, Fin 2] = length [Fin 2, Fin 0]"
    by simp
  have v: "scaleInput [Fin 5, Fin 7] ?sc = Inr [Fin 2, Fin 5]"
    by (simp add: scaleInput_def meanAt_def stdOrOne_def js_sub_def rd_numeral rd_1 rd_0)
  have o: "(2::real) ^ 1024 \<le> 2 ^ 1023 - (- (2 ^ 1023))"
    by simp
  have hb: "mean ?big = Some [Fin (- (2 ^ 1023))] \<and> std ?big = Some [Fin 1] \<and>
      length [Fin (2 ^ 1023)] = length [Fin (- (2 ^ 1023))] \<and>
      length [Fin (- (2 ^ 1023))] = length [Fin 1]"
    by simp
  from scaleInput_elementwise [of ?big "[Fin (- (2 ^ 1023))]" "[Fin 1]" "[Fin (2 ^ 1023)]"] hb
  obtain out where out: "scaleInput [Fin (2 ^ 1023)] ?big = Inr out" "length out = 1"
      and ov: "\<forall>i<length [Fin (2 ^ 1023)]. \<forall>x mu.
         [Fin (2 ^ 1023)] ! i = Fin x \<and> [Fin (- (2 ^ 1023))] ! i = Fin mu \<and>
         [Fin 1] ! i = Fin 1 \<and> 2 ^ 1024 \<le> x - mu \<longrightarrow> out ! i = PInf"
    by auto
  have "out ! 0 = PInf"
    using ov o by (simp del: power_numeral)
  then have "out = [PInf]"
    using out(2) by (cases out) simp_all
  then have b: "scaleInput [Fin (2 ^ 1023)] ?big = Inr [PInf]"
    using out(1) by simp
  from scaleInput_elementwise [of ?sc "[Fin 1, Fin 2]" "[Fin 2, Fin 0]" "[Fin 5, Fin 7]"] h
  have e: "\<exists>out. scaleInput [Fin 5, Fin 7] ?sc = Inr out \<and>
      length out = length [Fin 5, Fin 7] \<and>
      (\<forall>i<length [Fin 5, Fin 7].
         [Fin 2, Fin 0] ! i = Fin 0 \<longrightarrow>
         out ! i = js_div (js_sub ([Fin 5, Fin 7] ! i) ([Fin 1, Fin 2] ! i)) (Fin 1))"
    by blast
  show ?thesis
    using h e v o b by (intro conjI) (simp_all only:)
qed

text \<open>
  C5, as the code has it. A vector whose length differs from the scaler's is scaled
  all the same, with no error: the result has the length of the vector; where
  \<open>mean[i]\<close> and \<open>std[i]\<close> both exist the entry is \<open>(v[i] - mean[i]) / (std[i] || 1)\<close>;
  where \<open>mean[i]\<close> exists and \<open>std[i]\<close> does not, the missing std counts as 1 and the
  entry is \<open>(v[i] - mean[i]) / 1\<close>; an entry beyond the end of \<open>mean\<close> is NaN; and
  scaler entries beyond the vector are not looked at. A request whose scorer returns
  logits is then answered with status 200.
\<close>

theorem scaleInput_length_mismatch:
  "mean sc = Some m \<and> std sc = Some s \<longrightarrow>
   (\<exists>out. scaleInput v sc = Inr out \<and> length out = length v \<and>
      (\<forall>i<length v. out ! i = js_div (js_sub (v ! i) (meanAt m i)) (stdOrOne s i)) \<and>
      (\<forall>i<length v. i < length m \<and> i < length s \<longrightarrow>
         out ! i = js_div (js_sub (v ! i) (m ! i)) (if truthy (s ! i) then s ! i else Fin 1)) \<and>
      (\<forall>i<length v. i < length m \<and> length s \<le> i \<longrightarrow>
         out ! i = js_div (js_sub (v ! i) (m ! i)) (Fin 1)) \<and>
      (\<forall>i<length v. length m \<le> i \<longrightarrow> out ! i = NaN) \<and>
      (\<forall>req files logits.
         httpMethod req = ''POST'' \<and> payload req = Body (NumArray v) \<and> scaler files = sc \<and>
         scorer files (JArr (map JNum out)) = Inr logits
         \<longrightarrow> status (handler req (Inr files)) = 200))"
proof (intro impI)
  assume h: "mean sc = Some m \<and> std sc = Some s"
  define out where
    "out = map (\<lambda>k. js_div (js_sub (v ! k) (meanAt m k)) (stdOrOne s k)) [0..<length v]"
  have res: "scaleInput v sc = Inr out"
    using h by (simp add: scaleInput_present out_def)
  have len: "length out = length v"
    by (simp add: out_def)
  have nth: "\<forall>i<length v. out ! i = js_div (js_sub (v ! i) (meanAt m i)) (stdOrOne s i)"
    by (simp add: out_def)
  have both: "\<forall>i<length v. i < length m \<and> i < length s \<longrightarrow>
         out ! i = js_div (js_sub (v ! i) (m ! i)) (if truthy (s ! i) then s ! i else Fin 1)"
    by (simp add: out_def meanAt_def stdOrOne_def)
  have nostd: "\<forall>i<length v. i < length m \<and> length s \<le> i \<longrightarrow>
         out ! i = js_div (js_sub (v ! i) (m ! i)) (Fin 1)"
    by (simp add: out_def meanAt_def stdOrOne_def)
  have beyond: "\<forall>i<length v. length m \<le> i \<longrightarrow> out ! i = NaN"
    by (simp add: out_def meanAt_def js_sub_NaN_right)
  have ok: "\<forall>req files logits.
         httpMethod req = ''POST'' \<and> payload req = Body (NumArray v) \<and> scaler files = sc \<and>
         scorer files (JArr (map JNum out)) = Inr logits
         \<longrightarrow> status (handler req (Inr files)) = 200"
    using res by (simp add: handler_def Let_def)
  show "\<exists>out. scaleInput v sc = Inr out \<and> length out = length v \<and>
      (\<forall>i<length v. out ! i = js_div (js_sub (v ! i) (meanAt m i)) (stdOrOne s i)) \<and>
      (\<forall>i<length v. i < length m \<and> i < length s \<longrightarrow>
         out ! i = js_div (js_sub (v ! i) (m ! i)) (if truthy (s ! i) then s ! i else Fin 1)) \<and>
      (\<forall>i<length v. i < length m \<and> length s \<le> i \<longrightarrow>
         out ! i = js_div (js_sub (v ! i) (m ! i)) (Fin 1)) \<and>
      (\<forall>i<length v. length m \<le> i \<longrightarrow> out ! i = NaN) \<and>
      (\<forall>req files logits.
         httpMethod req = ''POST'' \<and> payload req = Body (NumArray v) \<and> scaler files = sc \<and>
         scorer files (JArr (map JNum out)) = Inr logits
         \<longrightarrow> status (handler req (Inr files)) = 200)"
    using res len nth both nostd beyond ok by blast
qed

theorem scaleInput_length_mismatch_witness:
  "mean \<lparr>mean = Some [Fin 4, Fin 3], std = Some [Fin 2]\<rparr> = Some [Fin 4, Fin 3] \<and>
   std \<lparr>mean = Some [Fin 4, Fin 3], std = Some [Fin 2]\<rparr> = Some [Fin 2] \<and>
   (1::nat) < length [Fin 6, Fin 9, Fin 5] \<and> (1::nat) < length [Fin 4, Fin 3] \<and>
   length [Fin 2] \<le> (1::nat) \<and> length [Fin 4, Fin 3] \<le> (2::nat) \<and>
   js_div (js_sub ([Fin 6, Fin 9, Fin 5] ! 1) ([Fin 4, Fin 3] ! 1)) (Fin 1) = Fin 6 \<and>
   scaleInput [Fin 6, Fin 9, Fin 5] \<lparr>mean = Some [Fin 4, Fin 3], std = Some [Fin 2]\<rparr>
     = Inr [Fin 1, Fin 6, NaN]"
proof -
  let ?sc = "\<lparr>mean = Some [Fin 4, Fin 3], std = Some [Fin 2]\<rparr>"
  let ?v = "[Fin 6, Fin 9, Fin 5]"
  have h: "mean ?sc = Some [Fin 4, Fin 3] \<and> std ?sc = Some [Fin 2]"
    by simp
  have i1: "(1::nat) < length ?v \<and> (1::nat) < length [Fin 4, Fin 3] \<and> length [Fin 2] \<le> (1::nat)"
    and i2: "(2::nat) < length ?v \<and> length [Fin 4, Fin 3] \<le> (2::nat)"
    and i0: "(0::nat) < length ?v \<and> (0::nat) < length [Fin 4, Fin 3] \<and> (0::nat) < length [Fin 2]"
    by simp_all
  from scaleInput_length_mismatch [of ?sc "[Fin 4, Fin 3]" "[Fin 2]" ?v] h
  obtain out where out: "scaleInput ?v ?sc = Inr out" "length out = length ?v"
      and both: "\<forall>i<length ?v. i < length [Fin 4, Fin 3] \<and> i < length [Fin 2] \<longrightarrow>
         out ! i = js_div (js_sub (?v ! i) ([Fin 4, Fin 3] ! i))
                     (if truthy ([Fin 2] ! i) then [Fin 2] ! i else Fin 1)"
      and nostd: "\<forall>i<length ?v. i < length [Fin 4, Fin 3] \<and> length [Fin 2] \<le> i \<longrightarrow>
         out ! i = js_div (js_sub (?v ! i) ([Fin 4, Fin 3] ! i)) (Fin 1)"
      and beyond: "\<forall>i<length ?v. length [Fin 4, Fin 3] \<le> i \<longrightarrow> out ! i = NaN"
    by blast
  have d: "js_div (js_sub (?v ! 1) ([Fin 4, Fin 3] ! 1)) (Fin 1) = Fin 6"
    by (simp add: js_sub_def rd_numeral)
  have o0: "out ! 0 = Fin 1"
    using both i0 by (simp add: js_sub_def rd_numeral rd_1)
  have o1: "out ! 1 = Fin 6"
    using nostd i1 d by simp
  have o2: "out ! 2 = NaN"
    using beyond i2 by simp
  have "length out = 3"
    using out(2) by simp
  then obtain a b c where abc: "out = [a, b, c]"
    by (auto simp: numeral_3_eq_3 length_Suc_conv)
  have "out = [Fin 1, Fin 6, NaN]"
    using o0 o1 o2 unfolding abc by simp
  then have r: "scaleInput ?v ?sc = Inr [Fin 1, Fin 6, NaN]"
    using out(1) by simp
  have l: "(1::nat) < length ?v \<and> (1::nat) < length [Fin 4, Fin 3] \<and>
      length [Fin 2] \<le> (1::nat) \<and> length [Fin 4, Fin 3] \<le> (2::nat)"
    by simp
  show ?thesis
    using h l d r by (intro conjI) (simp_all only:)
qed

text \<open>
  C5 as stated fails: a vector of three entries against a scaler of one, and a vector of
  one entry against a scaler of two, are both scaled without any error, and the
  request with the short vector is answered with status 200.
\<close>

theorem scaleInput_shape_counterexample:
  "scaleInput [Fin 1, Fin 2, Fin 3] \<lparr>mean = Some [Fin 0], std = Some [Fin 1]\<rparr>
     = Inr [Fin 1, NaN, NaN] \<and>
   scaleInput [Fin 5] \<lparr>mean = Some [Fin 1, Fin 2], std = Some [Fin 2, Fin 2]\<rparr>
     = Inr [Fin 2] \<and>
   status (handler \<lparr>httpMethod = ''POST'', payload = Body (NumArray [Fin 5])\<rparr>
     (Inr \<lparr>scaler = \<lparr>mean = Some [Fin 1, Fin 2], std = Some [Fin 2, Fin 2]\<rparr>,
           labels = [''flu''],
           scorer = predictXGB (JArr [JStr ''flu''])\<rparr>)) = 200"
proof -
  have a: "scaleInput [Fin 1, Fin 2, Fin 3] \<lparr>mean = Some [Fin 0], std = Some [Fin 1]\<rparr>
     = Inr [Fin 1, NaN, NaN]"
    by (simp add: scaleInput_def meanAt_def stdOrOne_def js_sub_def rd_numeral rd_1 rd_0)
  have b: "scaleInput [Fin 5] \<lparr>mean = Some [Fin 1, Fin 2], std = Some [Fin 2, Fin 2]\<rparr>
     = Inr [Fin 2]"
    by (simp add: scaleInput_def meanAt_def stdOrOne_def js_sub_def rd_numeral rd_1 rd_0)
  have c: "status (handler \<lparr>httpMethod = ''POST'', payload = Body (NumArray [Fin 5])\<rparr>
     (Inr \<lparr>scaler = \<lparr>mean = Some [Fin 1, Fin 2], std = Some [Fin 2, Fin 2]\<rparr>,
           labels = [''flu''],
           scorer = predictXGB (JArr [JStr ''flu''])\<rparr>)) = 200"
    by (rule handler_placeholder_status
        [where v = "[Fin 5]" and m = "[Fin 1, Fin 2]" and s = "[Fin 2, Fin 2]"
           and L = "JArr [JStr ''flu'']"]) simp_all
  from a b c show ?thesis by blast
qed

section \<open>Softmax and selection\<close>

text \<open>
  C6, as the code has it. For every logit vector of finite values that is not empty
  (and has at most 1000000 entries), softmax returns finite values that are all
  non-negative and whose sum differs from 1 by at most 1e-9, every operation rounded
  as the runtime rounds it. Equal logits give the uniform distribution, each entry the
  double nearest to \<open>1 / n\<close>; the logits 1, 1, 1 give three times the double nearest to
  1/3, which is \<open>6004799503160661 / 2 ^ 54\<close>.
\<close>

theorem softmax_distribution:
  "(xs \<noteq> [] \<and> length xs \<le> 1000000 \<longrightarrow>
     (\<exists>ps. softmax (map Fin xs) = map Fin ps \<and> length ps = length xs \<and>
        (\<forall>p\<in>set ps. 0 \<le> p) \<and> \<bar>sum_list ps - 1\<bar> \<le> 1 / 10 ^ 9)) \<and>
   (0 < n \<and> n \<le> 1000000 \<longrightarrow>
      softmax (replicate n (Fin c)) = replicate n (rd (1 / real n))) \<and>
   softmax [Fin 1, Fin 1, Fin 1] = [rd (1 / 3), rd (1 / 3), rd (1 / 3)] \<and>
   rd (1 / 3) = Fin (6004799503160661 / 2 ^ 54)"
proof (intro conjI impI)
  assume "xs \<noteq> [] \<and> length xs \<le> 1000000"
  then show "\<exists>ps. softmax (map Fin xs) = map Fin ps \<and> length ps = length xs \<and>
        (\<forall>p\<in>set ps. 0 \<le> p) \<and> \<bar>sum_list ps - 1\<bar> \<le> 1 / 10 ^ 9"
    using softmax_rounded [of xs] by blast
next
  assume "0 < n \<and> n \<le> 1000000"
  then show "softmax (replicate n (Fin c)) = replicate n (rd (1 / real n))"
    using softmax_uniform [of n c] by blast
next
  have "softmax (replicate 3 (Fin 1)) = replicate 3 (rd (1 / real 3))"
    by (rule softmax_uniform) simp_all
  then show "softmax [Fin 1, Fin 1, Fin 1] = [rd (1 / 3), rd (1 / 3), rd (1 / 3)]"
    by (simp add: numeral_3_eq_3)
next
  show "rd (1 / 3) = Fin (6004799503160661 / 2 ^ 54)"
    by (rule rd_third)
qed

theorem softmax_distribution_witness:
  "[0, 1 :: real] \<noteq> [] \<and> length [0, 1 :: real] \<le> 1000000 \<and>
   (0::nat) < 2 \<and> (2::nat) \<le> 1000000 \<and>
   (\<exists>ps. softmax (map Fin [0, 1]) = map Fin ps \<and> length ps = length [0, 1 :: real] \<and>
      (\<forall>p\<in>set ps. 0 \<le> p) \<and> \<bar>sum_list ps - 1\<bar> \<le> 1 / 10 ^ 9) \<and>
   softmax (replicate 2 (Fin 5)) = replicate 2 (rd (1 / real 2))"
proof -
  have h1: "[0, 1 :: real] \<noteq> [] \<and> length [0, 1 :: real] \<le> 1000000"
    by simp
  have h2: "(0::nat) < 2 \<and> (2::nat) \<le> 1000000"
    by simp
  note inst = softmax_distribution [of "[0, 1]" 2 5]
  note a = inst [THEN conjunct1, THEN mp, OF h1]
  note b = inst [THEN conjunct2, THEN conjunct1, THEN mp, OF h2]
  note h1a = h1 [THEN conjunct1] and h1b = h1 [THEN conjunct2]
  note h2a = h2 [THEN conjunct1] and h2b = h2 [THEN conjunct2]
  show ?thesis
    using h1a h1b h2a h2b a b by (intro conjI) assumption+
qed

text \<open>
  C6 as stated fails on the empty logit vector: softmax returns the empty vector, whose
  entries sum to 0 and not to 1.
\<close>

theorem softmax_empty_counterexample:
  "\<not> (\<exists>ps. softmax (map Fin []) = map Fin ps \<and> (\<forall>p\<in>set ps. 0 \<le> p) \<and>
          \<bar>sum_list ps - 1\<bar> \<le> 1 / 10 ^ 9)"
  by (auto simp: softmax_def Math_max_def)

text \<open>
  C7. The selected index is the first position whose probability equals the maximum:
  no earlier position equals it, and for a vector that is not empty and holds no NaN
  such a position exists and every probability is at most the selected one. The
  prediction is the label at that index, or the index itself when the label list has
  no entry there.
\<close>

theorem select_first_maximum:
  "(indexOf probs (Math_max probs) = - 1 \<or>
      (0 \<le> indexOf probs (Math_max probs) \<and>
       nat (indexOf probs (Math_max probs)) < length probs \<and>
       strictEq (probs ! nat (indexOf probs (Math_max probs))) (Math_max probs) \<and>
       (\<forall>j<nat (indexOf probs (Math_max probs)). \<not> strictEq (probs ! j) (Math_max probs)))) \<and>
   (probs \<noteq> [] \<and> NaN \<notin> set probs \<longrightarrow>
      0 \<le> indexOf probs (Math_max probs) \<and>
      (\<forall>p\<in>set probs. js_le p (probs ! nat (indexOf probs (Math_max probs))))) \<and>
   select ls probs =
     (if 0 \<le> indexOf probs (Math_max probs) \<and> nat (indexOf probs (Math_max probs)) < length ls
      then Label (ls ! nat (indexOf probs (Math_max probs)))
      else Index (indexOf probs (Math_max probs)))"
proof (intro conjI impI)
  let ?b = "indexOf probs (Math_max probs)"
  show "?b = - 1 \<or>
      (0 \<le> ?b \<and> nat ?b < length probs \<and> strictEq (probs ! nat ?b) (Math_max probs) \<and>
       (\<forall>j<nat ?b. \<not> strictEq (probs ! j) (Math_max probs)))"
  proof (cases "?b = - 1")
    case True
    then show ?thesis by simp
  next
    case False
    have rng: "0 \<le> ?b \<and> ?b < int (length probs)"
      using indexOfFrom_range [of 0 probs "Math_max probs"] False by (simp add: indexOf_def)
    have "strictEq (probs ! nat (?b - 0)) (Math_max probs) \<and>
        (\<forall>j<nat (?b - 0). \<not> strictEq (probs ! j) (Math_max probs))"
      unfolding indexOf_def
      by (rule indexOfFrom_found) (use False in \<open>simp_all add: indexOf_def\<close>)
    moreover have "nat ?b < length probs" using rng by linarith
    ultimately show ?thesis using rng by simp
  qed
next
  let ?b = "indexOf probs (Math_max probs)"
  assume h: "probs \<noteq> [] \<and> NaN \<notin> set probs"
  then have mb: "Math_max probs \<in> set probs" "\<forall>p\<in>set probs. js_le p (Math_max probs)"
    using Math_max_bounds [of probs] by simp_all
  from mb(1) obtain j where j: "j < length probs" "probs ! j = Math_max probs"
    by (auto simp: in_set_conv_nth)
  have mn: "Math_max probs \<noteq> NaN" using mb(1) h by auto
  have "strictEq (probs ! j) (Math_max probs)"
    using j(2) mn by (simp add: strictEq_refl)
  then have ne: "?b \<noteq> - 1"
    unfolding indexOf_def using j(1) indexOfFrom_exists [of 0 j probs] by simp
  then show "0 \<le> ?b"
    using indexOfFrom_range [of 0 probs "Math_max probs"] by (simp add: indexOf_def)
  have "strictEq (probs ! nat (?b - 0)) (Math_max probs)"
    unfolding indexOf_def
    using indexOfFrom_found [of 0 probs "Math_max probs"] ne by (simp add: indexOf_def)
  then have "probs ! nat ?b = Math_max probs"
    using strictEq_eq by simp
  then show "\<forall>p\<in>set probs. js_le p (probs ! nat ?b)"
    using mb(2) by simp
next
  show "select ls probs =
     (if 0 \<le> indexOf probs (Math_max probs) \<and> nat (indexOf probs (Math_max probs)) < length ls
      then Label (ls ! nat (indexOf probs (Math_max probs)))
      else Index (indexOf probs (Math_max probs)))"
    by (simp add: select_def labelAt_def Let_def)
qed

theorem select_first_maximum_witness:
  "[Fin (1 / 5), Fin (2 / 5), Fin (2 / 5)] \<noteq> [] \<and>
   NaN \<notin> set [Fin (1 / 5), Fin (2 / 5), Fin (2 / 5)] \<and>
   indexOf [Fin (1 / 5), Fin (2 / 5), Fin (2 / 5)]
     (Math_max [Fin (1 / 5), Fin (2 / 5), Fin (2 / 5)]) = 1 \<and>
   js_le (Fin (1 / 5)) ([Fin (1 / 5), Fin (2 / 5), Fin (2 / 5)] ! 1) \<and>
   select [''flu'', ''cold'', ''covid''] [Fin (1 / 5), Fin (2 / 5), Fin (2 / 5)] = Label ''cold'' \<and>
   select [''flu''] [Fin (1 / 5), Fin (2 / 5), Fin (2 / 5)] = Index 1"
proof -
  let ?p = "[Fin (1 / 5), Fin (2 / 5), Fin (2 / 5)]"
  have h: "?p \<noteq> [] \<and> NaN \<notin> set ?p"
    by simp
  have b: "indexOf ?p (Math_max ?p) = 1"
    by (simp add: indexOf_def Math_max_def)
  from select_first_maximum [of ?p "[''flu'', ''cold'', ''covid'']"] h b
  have r1: "(\<forall>p\<in>set ?p. js_le p (?p ! nat (indexOf ?p (Math_max ?p)))) \<and>
      select [''flu'', ''cold'', ''covid''] ?p = Label ''cold''"
    by simp
  then have r1a: "js_le (Fin (1 / 5)) (?p ! 1)"
    using b by simp
  from select_first_maximum [of ?p "[''flu'']"] b
  have r2: "select [''flu''] ?p = Index 1"
    by simp
  from h b r1 r1a r2 show ?thesis by blast
qed

section \<open>The placeholder scorer, worked and proved\<close>

text \<open>
  The weight of label 0 and feature 0, step by step: the seed, the rounded product, the
  rounded sum, the double nearest to 42528/100000 and the weight, which is the double
  that prints as -0.07472000000000001. The product and the sum lie beyond \<open>2 ^ 53\<close>,
  so both are rounded.
\<close>

lemma seed_0_0:
  "sint ((word_of_int (roundDouble ((int 0 + 1) * 1315423911)) :: 32 word)
       XOR word_of_int (roundDouble ((int 0 + 1) * 2654435761))) = - 800014570"
  by (simp add: roundDouble_def)

lemma bitLength_product: "bitLength 1288513659427636370 = 61"
  by (simp add: bitLength.simps)

lemma bitLength_sum: "bitLength 1288513658622330023 = 61"
  by (simp add: bitLength.simps)

lemma roundDouble_product: "roundDouble (- 800014570 * 1610612741) = - 1288513659427636480"
  by (simp add: roundDouble_def Let_def bitLength_product)

lemma roundDouble_sum: "roundDouble (- 1288513659427636480 + 805306457) = - 1288513658622330112"
  by (simp add: roundDouble_def Let_def bitLength_sum)

lemma rd_42528: "rd (42528 / 100000) = Fin (7661163398112498 / 2 ^ 54)"
proof -
  have "rd (42528 / 100000) = Fin (of_int 7661163398112498 * pow2 (- 2 - 52))"
    by (rule rd_eval) (simp_all add: pow2_def roundEven_def Let_def)
  then show ?thesis by (simp add: pow2_def)
qed

lemma rd_weight_0_0:
  "rd (7661163398112498 / 2 ^ 54 - 1 / 2) = Fin (- 1346035856628494 / 2 ^ 54)"
proof -
  have "rd (of_int (- 1346035856628494) * pow2 (- 54))
      = Fin (of_int (- 1346035856628494) * pow2 (- 54))"
    by (rule rd_representable) (simp_all add: pow2_def)
  then show ?thesis by (simp add: pow2_def)
qed

lemma weightFor_0_0: "weightFor 0 0 = Fin (- 1346035856628494 / 2 ^ 54)"
proof -
  have "(- 1288513658622330112 mod 2 ^ 32) mod 100000 = (42528::int)"
    by simp
  then have "weightFor 0 0 = js_sub (js_div (Fin 42528) (Fin 100000)) (Fin (1 / 2))"
    unfolding weightFor_def Let_def seed_0_0 roundDouble_product roundDouble_sum
    by (simp only: of_int_numeral)
  also have "js_div (Fin 42528) (Fin 100000) = rd (42528 / 100000)"
    by (simp only: js_div.simps) simp
  also have "rd (42528 / 100000) = Fin (7661163398112498 / 2 ^ 54)"
    by (rule rd_42528)
  also have "js_sub (Fin (7661163398112498 / 2 ^ 54)) (Fin (1 / 2))
      = rd (7661163398112498 / 2 ^ 54 - 1 / 2)"
    by (rule js_sub_Fin)
  finally show ?thesis by (simp only: rd_weight_0_0)
qed

text \<open>
  The bias of label 0 is \<^verbatim>\<open>-3 * 0.02\<close>: the literal is the double nearest to 2/100, and
  the product lies exactly between two doubles, so the tie goes to the even one; the
  result is the double that prints as -0.06.
\<close>

lemma rd_002: "rd (2 / 100) = Fin (5764607523034235 / 2 ^ 58)"
proof -
  have "rd (2 / 100) = Fin (of_int 5764607523034235 * pow2 (- 6 - 52))"
    by (rule rd_eval) (simp_all add: pow2_def roundEven_def Let_def)
  then show ?thesis by (simp add: pow2_def)
qed

lemma rd_tie: "rd (- 3 * (5764607523034235 / 2 ^ 58)) = Fin (- 1080863910568919 / 2 ^ 54)"
proof -
  have "rd (- 3 * (5764607523034235 / 2 ^ 58))
      = Fin (of_int (- 8646911284551352) * pow2 (- 5 - 52))"
    by (rule rd_eval) (simp_all add: pow2_def roundEven_def Let_def)
  then show ?thesis by (simp add: pow2_def)
qed

lemma bias_0: "bias 0 = Fin (- 1080863910568919 / 2 ^ 54)"
proof -
  have "bias 0 = js_mul (Fin (- 3)) (rd (2 / 100))"
    by (simp add: bias_def)
  also have "\<dots> = js_mul (Fin (- 3)) (Fin (5764607523034235 / 2 ^ 58))"
    by (simp only: rd_002)
  also have "\<dots> = rd (- 3 * (5764607523034235 / 2 ^ 58))"
    by (simp only: js_mul.simps)
  finally show ?thesis by (simp only: rd_tie)
qed



section \<open>Non-finite values in the handler\<close>




text \<open>
  C10. When the probabilities are all NaN or there are none, \<open>indexOf\<close> of the maximum
  is -1, the label list has nothing at -1, and the prediction is -1; the empty logit
  vector gives no probabilities and a NaN logit makes every probability NaN; the
  handler then answers with status 200 and prediction -1.
\<close>

theorem pipeline_minus_one:
  "((\<forall>p\<in>set probs. p = NaN) \<longrightarrow>
      indexOf probs (Math_max probs) = - 1 \<and> labelAt ls (- 1) = None \<and>
      select ls probs = Index (- 1)) \<and>
   softmax [] = [] \<and>
   (NaN \<in> set logits \<longrightarrow> (\<forall>p\<in>set (softmax logits). p = NaN)) \<and>
   (httpMethod req = ''POST'' \<and> payload req = Body (NumArray v) \<and>
    scaleInput v (scaler files) = Inr scaled \<and>
    scorer files (JArr (map JNum scaled)) = Inr logits \<and>
    (\<forall>p\<in>set (softmax logits). p = NaN)
    \<longrightarrow> handler req (Inr files) = Response 200 (Result (Index (- 1)) (softmax logits)))"
proof (intro conjI impI)
  assume "\<forall>p\<in>set probs. p = NaN"
  then show "indexOf probs (Math_max probs) = - 1"
    by (rule indexOf_only_NaN)
next
  show "labelAt ls (- 1) = None"
    by (simp add: labelAt_def)
next
  assume "\<forall>p\<in>set probs. p = NaN"
  then show "select ls probs = Index (- 1)"
    by (rule select_only_NaN)
next
  show "softmax [] = []"
    by (rule softmax_empty)
next
  assume "NaN \<in> set logits"
  then show "\<forall>p\<in>set (softmax logits). p = NaN"
    by (simp add: softmax_NaN)
next
  assume h: "httpMethod req = ''POST'' \<and> payload req = Body (NumArray v) \<and>
    scaleInput v (scaler files) = Inr scaled \<and>
    scorer files (JArr (map JNum scaled)) = Inr logits \<and>
    (\<forall>p\<in>set (softmax logits). p = NaN)"
  then have "select (labels files) (softmax logits) = Index (- 1)"
    by (simp add: select_only_NaN)
  then show "handler req (Inr files) = Response 200 (Result (Index (- 1)) (softmax logits))"
    using h handler_success [of req v files scaled logits] by simp
qed

theorem pipeline_minus_one_witness:
  "set [NaN, NaN] = {NaN} \<and>
   indexOf [NaN, NaN] (Math_max [NaN, NaN]) = - 1 \<and>
   select [''flu'', ''cold''] [NaN, NaN] = Index (- 1) \<and>
   NaN \<in> set [Fin 1, NaN] \<and>
   set (softmax [Fin 1, NaN]) \<subseteq> {NaN} \<and>
   scaleInput [Fin 1] \<lparr>mean = Some [Fin 0], std = Some [Fin 1]\<rparr> = Inr [Fin 1] \<and>
   predictXGB (JArr []) (JArr (map JNum [Fin 1])) = Inr [] \<and>
   handler \<lparr>httpMethod = ''POST'', payload = Body (NumArray [Fin 1])\<rparr>
     (Inr \<lparr>scaler = \<lparr>mean = Some [Fin 0], std = Some [Fin 1]\<rparr>,
           labels = [], scorer = predictXGB (JArr [])\<rparr>)
     = Response 200 (Result (Index (- 1)) [])"
proof -
  let ?req = "\<lparr>httpMethod = ''POST'', payload = Body (NumArray [Fin 1])\<rparr>"
  let ?files = "\<lparr>scaler = \<lparr>mean = Some [Fin 0], std = Some [Fin 1]\<rparr>,
           labels = [], scorer = predictXGB (JArr [])\<rparr>"
  have a: "\<forall>p\<in>set [NaN, NaN]. p = NaN"
    by simp
  have n: "NaN \<in> set [Fin 1, NaN]"
    by simp
  have sc: "scaleInput [Fin 1] \<lparr>mean = Some [Fin 0], std = Some [Fin 1]\<rparr> = Inr [Fin 1]"
    by (simp add: scaleInput_def meanAt_def stdOrOne_def js_sub_def rd_numeral rd_1 rd_0)
  have lg: "predictXGB (JArr []) (JArr (map JNum [Fin 1])) = Inr []"
    by simp
  have e: "\<forall>p\<in>set (softmax []). p = NaN"
    by (simp add: softmax_def)
  have h: "httpMethod ?req = ''POST'' \<and> payload ?req = Body (NumArray [Fin 1]) \<and>
      scaleInput [Fin 1] (scaler ?files) = Inr [Fin 1] \<and>
      scorer ?files (JArr (map JNum [Fin 1])) = Inr [] \<and>
      (\<forall>p\<in>set (softmax []). p = NaN)"
    using sc e by simp
  note i1 = pipeline_minus_one [of "[NaN, NaN]" "[''flu'', ''cold'']" "[Fin 1, NaN]"
      ?req "[Fin 1]" ?files "[Fin 1]"]
  note i2 = pipeline_minus_one [of "[NaN, NaN]" "[''flu'', ''cold'']" "[]"
      ?req "[Fin 1]" ?files "[Fin 1]"]
  from i1 a have r1: "indexOf [NaN, NaN] (Math_max [NaN, NaN]) = - 1"
    and r2: "select [''flu'', ''cold''] [NaN, NaN] = Index (- 1)"
    by blast+
  from i1 n have r3: "set (softmax [Fin 1, NaN]) \<subseteq> {NaN}"
    by blast
  have a': "set [NaN, NaN] = {NaN}"
    by simp
  from i2 h have "handler ?req (Inr ?files) = Response 200 (Result (Index (- 1)) (softmax []))"
    by blast
  moreover from i2 have "softmax [] = []"
    by blast
  ultimately have r4: "handler ?req (Inr ?files) = Response 200 (Result (Index (- 1)) [])"
    by simp
  show ?thesis
    using a' r1 r2 n r3 sc lg r4 by (intro conjI) assumption+
qed

end
